theory Spec2Isabelle
  imports Complex_Main
begin

section \<open>JavaScript values used by the scheduler\<close>

text \<open>
  Strings are lists of characters; a character stands for a code unit below 256, so
  the strings of the model are the JavaScript strings over the Latin-1 range. A
  JavaScript \<^verbatim>\<open>Set\<close> of strings is an insertion-ordered list: \<^verbatim>\<open>add\<close> appends a
  value that is not yet a member and does nothing otherwise, \<^verbatim>\<open>delete\<close> removes the
  value, \<^verbatim>\<open>size\<close> is the length. A \<^verbatim>\<open>Map\<close> keyed by strings is a partial function.

  The numbers that carry times (the timestamps of the events, the fetch time, the
  sentinel \<^verbatim>\<open>-1\<close>) are values of a type \<open>'n\<close> with the two operations the code
  applies to them, subtraction and the constant \<open>-1\<close>. Nothing is assumed of these
  operations: every definition and theorem is about any such type, and so about
  IEEE doubles with their rounding subtraction as much as about integers or reals.
  The examples take integers or reals. Priorities and bucket indices are integers:
  \<^verbatim>\<open>parseInt\<close> returns an integer or \<^verbatim>\<open>NaN\<close>, and where it rounds a long run of
  digits the rounded value is on the same side of 0 and of 99 as the exact one.

  The only exception the modelled code can throw is a \<^verbatim>\<open>TypeError\<close>, from reading a
  property of \<^verbatim>\<open>undefined\<close>. A private field \<^verbatim>\<open>foo_\<close> of the source is the record
  field \<open>foo\<close>.
\<close>

datatype js_error = TypeError

definition set_has :: "string list \<Rightarrow> string \<Rightarrow> bool" where
  "set_has xs x = (x \<in> set xs)"

definition set_add :: "string list \<Rightarrow> string \<Rightarrow> string list" where
  "set_add xs x = (if x \<in> set xs then xs else xs @ [x])"

definition set_delete :: "string list \<Rightarrow> string \<Rightarrow> string list" where
  "set_delete xs x = removeAll x xs"

definition set_size :: "string list \<Rightarrow> nat" where
  "set_size xs = length xs"

text \<open>\<^verbatim>\<open>xs[i]\<close> on an array: \<^verbatim>\<open>undefined\<close> (here \<open>None\<close>) outside the array.\<close>

definition js_index :: "'a list \<Rightarrow> nat \<Rightarrow> 'a option" where
  "js_index xs i = (if i < length xs then Some (xs ! i) else None)"

text \<open>
  \<^verbatim>\<open>String.prototype.toLowerCase\<close>: the letters \<open>A\<close> to \<open>Z\<close> (65 to 90) and the
  capital letters of the Latin-1 range (192 to 222, without the multiplication sign 215)
  move up by 32; every other code unit below 256 is unchanged.
\<close>

definition toLowerCase :: "string \<Rightarrow> string" where
  "toLowerCase s =
     map (\<lambda>c. let n = (of_char c :: nat) in
               if (65 \<le> n \<and> n \<le> 90) \<or> (192 \<le> n \<and> n \<le> 222 \<and> n \<noteq> 215)
               then char_of (n + 32) else c) s"

text \<open>
  The white space and line terminators that \<^verbatim>\<open>String.prototype.trim\<close> and
  \<^verbatim>\<open>parseInt\<close> skip, among the code units below 256: tab, line feed, vertical tab,
  form feed, carriage return, space and the no-break space U+00A0.
\<close>

definition isWhiteSpace :: "char \<Rightarrow> bool" where
  "isWhiteSpace c =
     (c \<in> set [CHR 0x09, CHR 0x0A, CHR 0x0B, CHR 0x0C, CHR 0x0D, CHR '' '', CHR 0xA0])"

definition trim :: "string \<Rightarrow> string" where
  "trim s = rev (dropWhile isWhiteSpace (rev (dropWhile isWhiteSpace s)))"

text \<open>
  \<^verbatim>\<open>s.substring(start, end)\<close>: both indices are clamped to \<open>[0, length s]\<close> and
  swapped when \<open>start > end\<close>.
\<close>

definition substring :: "string \<Rightarrow> int \<Rightarrow> int \<Rightarrow> string" where
  "substring s start end =
     (let n = int (length s);
          a = max 0 (min start n);
          b = max 0 (min end n);
          lo = min a b;
          hi = max a b
      in take (nat (hi - lo)) (drop (nat lo) s))"

text \<open>
  \<^verbatim>\<open>s.split(sep)\<close> for a string separator: the pieces of \<open>s\<close> between the
  occurrences of \<open>sep\<close>, found left to right; an empty separator splits into characters.
\<close>

function split_from :: "string \<Rightarrow> string \<Rightarrow> string \<Rightarrow> string list" where
  "split_from sep acc s =
     (if s = [] then [acc]
      else if sep \<noteq> [] \<and> take (length sep) s = sep
           then acc # split_from sep [] (drop (length sep) s)
           else split_from sep (acc @ [hd s]) (tl s))"
  by pat_completeness auto
termination
  by (relation "measure (\<lambda>(sep, acc, s). length s)") auto

declare split_from.simps [simp del]

definition split :: "string \<Rightarrow> string \<Rightarrow> string list" where
  "split s sep = (if sep = [] then map (\<lambda>c. [c]) s else split_from sep [] s)"

text \<open>
  \<^verbatim>\<open>parseInt(s, 10)\<close>: leading white space is skipped, one sign is read, then the
  longest run of decimal digits; \<^verbatim>\<open>NaN\<close> (here \<open>None\<close>) when there is no digit.
\<close>

definition digitValue :: "char \<Rightarrow> nat option" where
  "digitValue c = map_of (zip ''0123456789'' [0, 1, 2, 3, 4, 5, 6, 7, 8, 9]) c"

definition isDigit :: "char \<Rightarrow> bool" where
  "isDigit c = (digitValue c \<noteq> None)"

definition digitsValue :: "string \<Rightarrow> nat" where
  "digitsValue ds = foldl (\<lambda>a c. 10 * a + (case digitValue c of None \<Rightarrow> 0 | Some d \<Rightarrow> d)) 0 ds"

definition parseInt :: "string \<Rightarrow> int option" where
  "parseInt s =
     (let t = dropWhile isWhiteSpace s;
          neg = (t \<noteq> [] \<and> hd t = CHR ''-'');
          u = (if t \<noteq> [] \<and> (hd t = CHR ''-'' \<or> hd t = CHR ''+'') then tl t else t);
          ds = takeWhile isDigit u
      in if ds = [] then None
         else Some (if neg then - int (digitsValue ds) else int (digitsValue ds)))"

text \<open>\<^verbatim>\<open>Math.min(x, n)\<close> where \<open>x\<close> may be \<^verbatim>\<open>NaN\<close>: then the result is \<^verbatim>\<open>NaN\<close>.\<close>

definition Math_min :: "int option \<Rightarrow> int \<Rightarrow> int option" where
  "Math_min x n = (case x of None \<Rightarrow> None | Some p \<Rightarrow> Some (min p n))"


section \<open>Request-timing tracker (timetracker.js)\<close>

definition PrefetchStatus_YES :: string where "PrefetchStatus_YES = ''yes''"
definition PrefetchStatus_NO :: string where "PrefetchStatus_NO = ''no''"
definition PrefetchStatus_UNKNOWN :: string where "PrefetchStatus_UNKNOWN = ''unknown''"

record 'n TimeTracker =
  requestTimes :: "string \<rightharpoonup> 'n"
  completeTimes :: "string \<rightharpoonup> 'n"
  prefetched :: "string \<rightharpoonup> bool"

definition TimeTracker_new :: "'n TimeTracker" where
  "TimeTracker_new =
     \<lparr>requestTimes = Map.empty, completeTimes = Map.empty, prefetched = Map.empty\<rparr>"

definition registerRequest ::
  "('n::{minus,uminus,one}) TimeTracker \<Rightarrow> string \<Rightarrow> 'n \<Rightarrow> bool \<Rightarrow> 'n TimeTracker" where
  "registerRequest tt requestID requestTimestampMs isPrefetch =
     tt\<lparr>requestTimes := (requestTimes tt)(requestID \<mapsto> requestTimestampMs),
        completeTimes := (completeTimes tt)(requestID \<mapsto> - 1),
        prefetched := (prefetched tt)(requestID \<mapsto> isPrefetch)\<rparr>"

text \<open>The result is the returned fetch time together with the tracker afterwards.\<close>

definition completeRequest ::
  "('n::{minus,uminus,one}) TimeTracker \<Rightarrow> string \<Rightarrow> 'n \<Rightarrow> 'n \<times> 'n TimeTracker" where
  "completeRequest tt requestID completeTimestampMs =
     (case requestTimes tt requestID of
        None \<Rightarrow> (- 1, tt)
      | Some requestTime \<Rightarrow>
          (completeTimestampMs - requestTime,
           tt\<lparr>completeTimes := (completeTimes tt)(requestID \<mapsto> completeTimestampMs)\<rparr>))"

definition isPrefetchRequest :: "'n TimeTracker \<Rightarrow> string \<Rightarrow> string" where
  "isPrefetchRequest tt requestID =
     (case requestTimes tt requestID of
        None \<Rightarrow> PrefetchStatus_UNKNOWN
      | Some _ \<Rightarrow>
          (if prefetched tt requestID = Some True then PrefetchStatus_YES
           else PrefetchStatus_NO))"

definition getRequestTime :: "('n::{minus,uminus,one}) TimeTracker \<Rightarrow> string \<Rightarrow> 'n" where
  "getRequestTime tt requestID =
     (case requestTimes tt requestID of None \<Rightarrow> - 1 | Some t \<Rightarrow> t)"

definition getCompleteTime :: "('n::{minus,uminus,one}) TimeTracker \<Rightarrow> string \<Rightarrow> 'n" where
  "getCompleteTime tt requestID =
     (case completeTimes tt requestID of None \<Rightarrow> - 1 | Some t \<Rightarrow> t)"

text \<open>
  The public methods of the tracker as calls, and the tracker reached from a new one by a
  sequence of calls (the queries leave the tracker as it is).
\<close>

datatype 'n TrackerCall =
    RegisterRequest string 'n bool
  | CompleteRequest string 'n
  | IsPrefetchRequest string
  | GetRequestTime string
  | GetCompleteTime string

fun trackerCall :: "('n::{minus,uminus,one}) TimeTracker \<Rightarrow> 'n TrackerCall \<Rightarrow> 'n TimeTracker" where
  "trackerCall tt (RegisterRequest requestID t isPrefetch) = registerRequest tt requestID t isPrefetch"
| "trackerCall tt (CompleteRequest requestID t) = snd (completeRequest tt requestID t)"
| "trackerCall tt (IsPrefetchRequest requestID) = tt"
| "trackerCall tt (GetRequestTime requestID) = tt"
| "trackerCall tt (GetCompleteTime requestID) = tt"

definition trackerCalls :: "('n::{minus,uminus,one}) TrackerCall list \<Rightarrow> 'n TimeTracker" where
  "trackerCalls calls = foldl trackerCall TimeTracker_new calls"

fun registers :: "string \<Rightarrow> 'n TrackerCall \<Rightarrow> bool" where
  "registers requestID (RegisterRequest i t isPrefetch) = (i = requestID)"
| "registers requestID c = False"

text \<open>The ids that a sequence of calls registers, in the order of the calls.\<close>

fun registeredId :: "'n TrackerCall \<Rightarrow> string option" where
  "registeredId (RegisterRequest i t isPrefetch) = Some i"
| "registeredId c = None"

definition registeredIds :: "'n TrackerCall list \<Rightarrow> string list" where
  "registeredIds calls = List.map_filter registeredId calls"


section \<open>The scheduler (numericpriorityscheduler.js)\<close>

definition NUM_PRIORITIES :: nat where "NUM_PRIORITIES = 100"
definition OUTSTANDING_REQUESTS_ALLOWED :: nat where "OUTSTANDING_REQUESTS_ALLOWED = 7"
definition DELIMETER :: string where "DELIMETER = ''|$de|''"
definition MAX_MAIN_FRAME_PRIORITY :: int where "MAX_MAIN_FRAME_PRIORITY = 2"

text \<open>
  Modelled from the spec: the class \<^verbatim>\<open>PrefetchResource\<close> is not among the sources. The
  spec gives it a url, a resource type and a priority. The scheduler builds one with
  \<^verbatim>\<open>new PrefetchResource(url, type)\<close> and reads back \<^verbatim>\<open>resource.url\<close> and
  \<^verbatim>\<open>resource.type\<close>; the priority is the index of the bucket that holds the
  resource. So it is a record of the two fields the scheduler passes and reads.
\<close>

record PrefetchResource =
  url :: string
  type :: string

datatype MessageType =
    CONTENT_SCRIPT_INIT | PREFETCH_RESOURCE | PRELOAD_RESOURCE | COMPLETED
  | LOG_TIMING | NAVIGATED_TO_DST | DEBUG | INFO

text \<open>
  The messages handed to the content script. An info message carries a text built from
  \<^verbatim>\<open>performance.now()\<close> and a debug message a dump of the tracker; only their kind is
  kept. \<open>Message_Prefetch t u r\<close> is \<^verbatim>\<open>{type: t, url: u, resourceType: r}\<close>;
  \<open>Message_Log u i f r c p\<close> is the \<^verbatim>\<open>LOG_TIMING\<close> message with \<^verbatim>\<open>url\<close>,
  \<^verbatim>\<open>requestId\<close>, \<^verbatim>\<open>fetchTime\<close>, \<^verbatim>\<open>requestTimestampMs\<close>,
  \<^verbatim>\<open>completeTimestampMs\<close> and \<^verbatim>\<open>isPrefetch\<close>.
\<close>

datatype 'n Message =
    Message_Info
  | Message_Debug
  | Message_NavigatedToDst string
  | Message_Prefetch MessageType string string
  | Message_Log string string 'n 'n 'n string

record HttpHeader =
  name :: string
  "value" :: string

text \<open>The details object of a webRequest event, with the fields the handlers read.\<close>

record 'n Details =
  details_url :: string
  requestId :: string
  timeStamp :: 'n
  requestHeaders :: "HttpHeader list"
  responseHeaders :: "HttpHeader list"

text \<open>
  The scheduler object. \<open>sent\<close> is not a field of the class: it lists, oldest first, the
  messages the scheduler has passed to \<^verbatim>\<open>notifyContentScript_\<close>.
\<close>

record 'n NumericPriorityScheduler =
  dependencies :: "PrefetchResource list list"
  outstandingPrefetchUrls :: "string list"
  timeTracker :: "'n TimeTracker"
  requestedURLs :: "string list"
  lpUrl :: string
  navigatedToDst :: bool
  queuedPrefetches :: "PrefetchResource list"
  curFetchPriority :: int
  didInit :: bool
  initializedContentScript :: bool
  sent :: "'n Message list"

definition constructor :: "'n NumericPriorityScheduler" where
  "constructor =
     \<lparr>dependencies = replicate NUM_PRIORITIES [],
      outstandingPrefetchUrls = [],
      timeTracker = TimeTracker_new,
      requestedURLs = [],
      lpUrl = [],
      navigatedToDst = False,
      queuedPrefetches = [],
      curFetchPriority = - 1,
      didInit = False,
      initializedContentScript = False,
      sent = []\<rparr>"

definition notifyContentScript ::
  "('n::{minus,uminus,one}) NumericPriorityScheduler \<Rightarrow> 'n Message \<Rightarrow> 'n NumericPriorityScheduler" where
  "notifyContentScript s msg = s\<lparr>sent := sent s @ [msg]\<rparr>"

fun isPrefetchRequest_headers :: "HttpHeader list \<Rightarrow> bool" where
  "isPrefetchRequest_headers [] = False"
| "isPrefetchRequest_headers (element # rest) =
     (if toLowerCase (name element) = ''purpose'' \<and> toLowerCase (value element) = ''prefetch''
      then True
      else isPrefetchRequest_headers rest)"

definition onSendHeaders :: "('n::{minus,uminus,one}) NumericPriorityScheduler \<Rightarrow> 'n Details \<Rightarrow> 'n NumericPriorityScheduler" where
  "onSendHeaders s details =
     (let isPrefetch = isPrefetchRequest_headers (requestHeaders details);
          s1 = s\<lparr>timeTracker :=
                   registerRequest (timeTracker s) (requestId details) (timeStamp details)
                     isPrefetch\<rparr>;
          s2 = (if details_url details = lpUrl s1
                then (notifyContentScript s1 (Message_NavigatedToDst (lpUrl s1)))
                       \<lparr>navigatedToDst := True\<rparr>
                else s1)
      in s2\<lparr>requestedURLs := set_add (requestedURLs s2) (details_url details)\<rparr>)"

text \<open>
  The callback that \<^verbatim>\<open>parsePrefetchURLs\<close> runs on each entry of the hint. It throws
  (\<open>Inl\<close>) where the source calls a method on \<^verbatim>\<open>undefined\<close>, and it changes the
  buckets only in its last statement, the \<^verbatim>\<open>push\<close>. There
  \<^verbatim>\<open>dependencies[targetPriority]\<close> is a bucket when the index is an integer inside
  the array, and \<^verbatim>\<open>undefined\<close> for a negative index and for \<^verbatim>\<open>NaN\<close>.
\<close>

definition parsePrefetchURLs_element ::
  "PrefetchResource list list \<Rightarrow> string \<Rightarrow> js_error + PrefetchResource list list" where
  "parsePrefetchURLs_element deps element =
     (let prefetchInfo = split element '';'' in
      case js_index prefetchInfo 0 of
        None \<Rightarrow> Inl TypeError
      | Some info0 \<Rightarrow>
     (let trimmedUrl = trim info0;
          url = substring trimmedUrl 1 (int (length trimmedUrl) - 1) in
      case js_index prefetchInfo 1 of
        None \<Rightarrow> Inl TypeError
      | Some info1 \<Rightarrow>
     (case js_index (split info1 ''='') 1 of
        None \<Rightarrow> Inl TypeError
      | Some priorityStr \<Rightarrow>
     (let priority = parseInt (trim priorityStr);
          targetPriority = Math_min priority (int NUM_PRIORITIES - 1) in
      case js_index prefetchInfo 2 of
        None \<Rightarrow> Inl TypeError
      | Some info2 \<Rightarrow>
     (case js_index (split info2 ''='') 1 of
        None \<Rightarrow> Inl TypeError
      | Some typeStr \<Rightarrow>
     (let prefetchResource = \<lparr>url = url, type = trim typeStr\<rparr> in
      case targetPriority of
        None \<Rightarrow> Inl TypeError
      | Some k \<Rightarrow>
          if 0 \<le> k \<and> k < int (length deps)
          then Inr (deps[nat k := deps ! nat k @ [prefetchResource]])
          else Inl TypeError))))))"

text \<open>
  \<^verbatim>\<open>forEach\<close> over the entries: an exception ends the loop and leaves the buckets as the
  earlier entries made them.
\<close>

fun parsePrefetchURLs_forEach ::
  "PrefetchResource list list \<Rightarrow> string list \<Rightarrow> PrefetchResource list list \<times> js_error option" where
  "parsePrefetchURLs_forEach deps [] = (deps, None)"
| "parsePrefetchURLs_forEach deps (element # rest) =
     (case parsePrefetchURLs_element deps element of
        Inl err \<Rightarrow> (deps, Some err)
      | Inr deps' \<Rightarrow> parsePrefetchURLs_forEach deps' rest)"

definition parsePrefetchURLs ::
  "PrefetchResource list list \<Rightarrow> string \<Rightarrow> PrefetchResource list list \<times> js_error option" where
  "parsePrefetchURLs deps prefetchStr = parsePrefetchURLs_forEach deps (split prefetchStr DELIMETER)"

fun onHeadersReceived_forEach ::
  "('n::{minus,uminus,one}) NumericPriorityScheduler \<Rightarrow> HttpHeader list \<Rightarrow> 'n NumericPriorityScheduler \<times> js_error option" where
  "onHeadersReceived_forEach s [] = (s, None)"
| "onHeadersReceived_forEach s (element # rest) =
     (if toLowerCase (name element) = ''x-prefetch'' then
        (case parsePrefetchURLs (dependencies s) (value element) of
           (deps, Some err) \<Rightarrow> (s\<lparr>dependencies := deps\<rparr>, Some err)
         | (deps, None) \<Rightarrow> onHeadersReceived_forEach (s\<lparr>dependencies := deps\<rparr>) rest)
      else if toLowerCase (name element) = ''x-lp-url'' then
        onHeadersReceived_forEach (s\<lparr>lpUrl := value element\<rparr>) rest
      else onHeadersReceived_forEach s rest)"

text \<open>
  The handler returns the scheduler afterwards and either the exception that ended it or
  the object it returns to the browser, which holds the response headers.
\<close>

definition onHeadersReceived ::
  "('n::{minus,uminus,one}) NumericPriorityScheduler \<Rightarrow> 'n Details \<Rightarrow> 'n NumericPriorityScheduler \<times> (js_error + HttpHeader list)" where
  "onHeadersReceived s details =
     (case onHeadersReceived_forEach (notifyContentScript s Message_Info) (responseHeaders details) of
        (s', Some err) \<Rightarrow> (s', Inl err)
      | (s', None) \<Rightarrow> (s', Inr (responseHeaders details)))"

definition fetchDependency ::
  "('n::{minus,uminus,one}) NumericPriorityScheduler \<Rightarrow> PrefetchResource \<Rightarrow> int \<Rightarrow> 'n NumericPriorityScheduler" where
  "fetchDependency s resource priority =
     (if set_has (requestedURLs s) (url resource) then
        notifyContentScript s (Message_Log (url resource) '''' (- 1) (- 1) (- 1) ''late'')
      else
        (let msgType = (if navigatedToDst s then PRELOAD_RESOURCE else PREFETCH_RESOURCE);
             msgType = (if priority > MAX_MAIN_FRAME_PRIORITY then PREFETCH_RESOURCE else msgType);
             s1 = notifyContentScript s (Message_Prefetch msgType (url resource) (type resource))
         in s1\<lparr>outstandingPrefetchUrls := set_add (outstandingPrefetchUrls s1) (url resource)\<rparr>))"

text \<open>The search for the first non-empty bucket, from index \<open>i\<close> on; \<open>-1\<close> when there is none.\<close>

function nextPriority_from :: "PrefetchResource list list \<Rightarrow> nat \<Rightarrow> int" where
  "nextPriority_from deps i =
     (if i < length deps
      then (if length (deps ! i) > 0 then int i else nextPriority_from deps (Suc i))
      else - 1)"
  by pat_completeness auto
termination
  by (relation "measure (\<lambda>(deps, i). length deps - i)") auto

declare nextPriority_from.simps [simp del]

text \<open>
  The loop that moves a bucket into the queue: the first element of the bucket is removed
  and pushed on the queue until the bucket is empty. The result is the bucket and the
  queue afterwards.
\<close>

fun drain :: "PrefetchResource list \<Rightarrow> PrefetchResource list \<Rightarrow> PrefetchResource list \<times> PrefetchResource list" where
  "drain [] queued = ([], queued)"
| "drain (dependency # rest) queued = drain rest (queued @ [dependency])"

text \<open>The loop that fetches from the queue while fewer requests are outstanding than allowed.\<close>

function fetchQueued :: "('n::{minus,uminus,one}) NumericPriorityScheduler \<Rightarrow> 'n NumericPriorityScheduler" where
  "fetchQueued s =
     (if set_size (outstandingPrefetchUrls s) < OUTSTANDING_REQUESTS_ALLOWED
         \<and> length (queuedPrefetches s) > 0
      then fetchQueued
             (fetchDependency (s\<lparr>queuedPrefetches := tl (queuedPrefetches s)\<rparr>)
                (hd (queuedPrefetches s)) (curFetchPriority s))
      else s)"
  by pat_completeness auto
termination
  by (relation "measure (\<lambda>s. length (queuedPrefetches s))")
     (auto simp: fetchDependency_def notifyContentScript_def Let_def)

declare fetchQueued.simps [simp del]

definition handleFetchCompleted ::
  "('n::{minus,uminus,one}) NumericPriorityScheduler \<Rightarrow> string \<Rightarrow> 'n NumericPriorityScheduler" where
  "handleFetchCompleted s fetchedURL =
     (let s1 = notifyContentScript s Message_Info in
      if set_size (outstandingPrefetchUrls s1) \<ge> OUTSTANDING_REQUESTS_ALLOWED then s1
      else
        (let nextPriority = nextPriority_from (dependencies s1) 0;
             s2 = (if set_size (outstandingPrefetchUrls s1) = 0 \<and> nextPriority \<noteq> - 1
                      \<and> length (queuedPrefetches s1) = 0
                   then (case drain (dependencies s1 ! nat nextPriority) (queuedPrefetches s1) of
                           (bucket, queued) \<Rightarrow>
                             s1\<lparr>dependencies := (dependencies s1)[nat nextPriority := bucket],
                                queuedPrefetches := queued,
                                curFetchPriority := nextPriority\<rparr>)
                   else s1);
             s3 = notifyContentScript s2 Message_Info
         in fetchQueued s3))"

definition onContentMessage ::
  "('n::{minus,uminus,one}) NumericPriorityScheduler \<Rightarrow> MessageType \<Rightarrow> 'n NumericPriorityScheduler" where
  "onContentMessage s msgType =
     (case msgType of
        CONTENT_SCRIPT_INIT \<Rightarrow>
          (if \<not> initializedContentScript s
           then (handleFetchCompleted s ''INIT'')\<lparr>initializedContentScript := True\<rparr>
           else s)
      | COMPLETED \<Rightarrow> s
      | _ \<Rightarrow> s)"

definition onFetchCompleted ::
  "('n::{minus,uminus,one}) NumericPriorityScheduler \<Rightarrow> 'n Details \<Rightarrow> 'n NumericPriorityScheduler" where
  "onFetchCompleted s details =
     (let s1 = s\<lparr>outstandingPrefetchUrls :=
                   set_delete (outstandingPrefetchUrls s) (details_url details)\<rparr>;
          s2 = handleFetchCompleted s1 (details_url details);
          s3 = notifyContentScript s2 Message_Debug;
          (fetchTime, tracker) =
             completeRequest (timeTracker s3) (requestId details) (timeStamp details);
          s4 = s3\<lparr>timeTracker := tracker\<rparr>
      in notifyContentScript s4
           (Message_Log (details_url details) (requestId details) fetchTime
              (getRequestTime tracker (requestId details))
              (getCompleteTime tracker (requestId details))
              (isPrefetchRequest tracker (requestId details))))"

definition onErrorOccurred ::
  "('n::{minus,uminus,one}) NumericPriorityScheduler \<Rightarrow> 'n Details \<Rightarrow> 'n NumericPriorityScheduler" where
  "onErrorOccurred s details = onFetchCompleted (notifyContentScript s Message_Info) details"

definition onFetchSucceed ::
  "('n::{minus,uminus,one}) NumericPriorityScheduler \<Rightarrow> 'n Details \<Rightarrow> 'n NumericPriorityScheduler" where
  "onFetchSucceed s details = onFetchCompleted (notifyContentScript s Message_Info) details"

definition run :: "('n::{minus,uminus,one}) NumericPriorityScheduler \<Rightarrow> 'n NumericPriorityScheduler" where
  "run s = (if \<not> didInit s then (notifyContentScript s Message_Info)\<lparr>didInit := True\<rparr> else s)"

text \<open>
  The events the browser delivers to the scheduler, one per listener that
  \<^verbatim>\<open>run\<close> registers, and \<^verbatim>\<open>run\<close> itself. An exception that a handler throws is
  caught by the browser: the scheduler goes on from the state the handler left.
\<close>

datatype 'n Event =
    Run
  | SendHeaders "'n Details"
  | HeadersReceived "'n Details"
  | FetchSucceed "'n Details"
  | ErrorOccurred "'n Details"
  | ContentMessage MessageType

fun handleEvent :: "('n::{minus,uminus,one}) NumericPriorityScheduler \<Rightarrow> 'n Event \<Rightarrow> 'n NumericPriorityScheduler" where
  "handleEvent s Run = run s"
| "handleEvent s (SendHeaders details) = onSendHeaders s details"
| "handleEvent s (HeadersReceived details) = fst (onHeadersReceived s details)"
| "handleEvent s (FetchSucceed details) = onFetchSucceed s details"
| "handleEvent s (ErrorOccurred details) = onErrorOccurred s details"
| "handleEvent s (ContentMessage msgType) = onContentMessage s msgType"

definition handleEvents :: "('n::{minus,uminus,one}) Event list \<Rightarrow> 'n NumericPriorityScheduler" where
  "handleEvents events = foldl handleEvent constructor events"


section \<open>The content script's reading of a timing log (content.js)\<close>

text \<open>
  \<^verbatim>\<open>handleLogTiming\<close> prints the fields of a \<^verbatim>\<open>LOG_TIMING\<close> message followed by a
  classification chosen from \<^verbatim>\<open>msg.isPrefetch\<close>; this is the classification.
\<close>

definition handleLogTiming_suffix :: "string \<Rightarrow> string" where
  "handleLogTiming_suffix isPrefetch =
     (if isPrefetch = ''yes'' then '',PREFETCH''
      else if isPrefetch = ''no'' then '',ACTUAL''
      else if isPrefetch = ''late'' then '',LATE_PREFETCH''
      else '',UNKNOWN'')"


section \<open>What a run of the scheduler shows\<close>

text \<open>
  Every call of \<^verbatim>\<open>fetchDependency\<close> sends exactly one message: a prefetch or preload
  directive when it dispatches the resource, a timing log marked \<^verbatim>\<open>late\<close> when it
  suppresses it. \<open>fetchedUrls\<close> reads from a list of messages the URLs passed to
  \<^verbatim>\<open>fetchDependency\<close>, in order; \<open>dispatchedUrls\<close> those for which a directive was
  sent, \<open>lateUrls\<close> those for which the late log was sent.
\<close>

fun fetchedUrl :: "('n::{minus,uminus,one}) Message \<Rightarrow> string option" where
  "fetchedUrl (Message_Prefetch t u r) = Some u"
| "fetchedUrl (Message_Log u i f rt ct p) = (if p = ''late'' then Some u else None)"
| "fetchedUrl Message_Info = None"
| "fetchedUrl Message_Debug = None"
| "fetchedUrl (Message_NavigatedToDst u) = None"

definition fetchedUrls :: "('n::{minus,uminus,one}) Message list \<Rightarrow> string list" where
  "fetchedUrls msgs = List.map_filter fetchedUrl msgs"

fun dispatchedUrl :: "('n::{minus,uminus,one}) Message \<Rightarrow> string option" where
  "dispatchedUrl (Message_Prefetch t u r) = Some u"
| "dispatchedUrl (Message_Log u i f rt ct p) = None"
| "dispatchedUrl Message_Info = None"
| "dispatchedUrl Message_Debug = None"
| "dispatchedUrl (Message_NavigatedToDst u) = None"

definition dispatchedUrls :: "('n::{minus,uminus,one}) Message list \<Rightarrow> string list" where
  "dispatchedUrls msgs = List.map_filter dispatchedUrl msgs"

fun lateUrl :: "'n Message \<Rightarrow> string option" where
  "lateUrl (Message_Prefetch t u r) = None"
| "lateUrl (Message_Log u i f rt ct p) = (if p = ''late'' then Some u else None)"
| "lateUrl Message_Info = None"
| "lateUrl Message_Debug = None"
| "lateUrl (Message_NavigatedToDst u) = None"

definition lateUrls :: "'n Message list \<Rightarrow> string list" where
  "lateUrls msgs = List.map_filter lateUrl msgs"

text \<open>
  The resources of tier \<open>p\<close> that wait to be passed to \<^verbatim>\<open>fetchDependency\<close>, in the
  order in which the scheduler will take them: the queue, when it was filled from bucket
  \<open>p\<close>, then bucket \<open>p\<close>.
\<close>

definition waiting :: "('n::{minus,uminus,one}) NumericPriorityScheduler \<Rightarrow> nat \<Rightarrow> PrefetchResource list" where
  "waiting s p =
     (if curFetchPriority s = int p then queuedPrefetches s else []) @ dependencies s ! p"

text \<open>
  What one event does, read from the states before and after it: the URLs it passes to
  \<^verbatim>\<open>fetchDependency\<close>, those it sends a directive for, those it logs as late, and the
  resources its hints append to bucket \<open>p\<close>. All calls of \<^verbatim>\<open>fetchDependency\<close> in one event are made with the
  priority \<^verbatim>\<open>curFetchPriority_\<close>, which does not change after the first of them, so
  they belong to tier \<open>p\<close> when that field is \<open>p\<close> after the event.
\<close>

definition fetchedBy :: "('n::{minus,uminus,one}) NumericPriorityScheduler \<Rightarrow> 'n Event \<Rightarrow> string list" where
  "fetchedBy s ev = fetchedUrls (drop (length (sent s)) (sent (handleEvent s ev)))"

definition dispatchedBy :: "('n::{minus,uminus,one}) NumericPriorityScheduler \<Rightarrow> 'n Event \<Rightarrow> string list" where
  "dispatchedBy s ev = dispatchedUrls (drop (length (sent s)) (sent (handleEvent s ev)))"

definition lateBy :: "('n::{minus,uminus,one}) NumericPriorityScheduler \<Rightarrow> 'n Event \<Rightarrow> string list" where
  "lateBy s ev = lateUrls (drop (length (sent s)) (sent (handleEvent s ev)))"

definition parsedBy :: "nat \<Rightarrow> ('n::{minus,uminus,one}) NumericPriorityScheduler \<Rightarrow> 'n Event \<Rightarrow> PrefetchResource list" where
  "parsedBy p s ev =
     (case ev of
        HeadersReceived details \<Rightarrow>
          drop (length (dependencies s ! p)) (dependencies (handleEvent s ev) ! p)
      | _ \<Rightarrow> [])"

fun fetchedOfTier :: "nat \<Rightarrow> ('n::{minus,uminus,one}) NumericPriorityScheduler \<Rightarrow> 'n Event list \<Rightarrow> string list" where
  "fetchedOfTier p s [] = []"
| "fetchedOfTier p s (ev # evs) =
     (if curFetchPriority (handleEvent s ev) = int p then fetchedBy s ev else [])
       @ fetchedOfTier p (handleEvent s ev) evs"

fun dispatchedOfTier :: "nat \<Rightarrow> ('n::{minus,uminus,one}) NumericPriorityScheduler \<Rightarrow> 'n Event list \<Rightarrow> string list" where
  "dispatchedOfTier p s [] = []"
| "dispatchedOfTier p s (ev # evs) =
     (if curFetchPriority (handleEvent s ev) = int p then dispatchedBy s ev else [])
       @ dispatchedOfTier p (handleEvent s ev) evs"

fun parsedIntoTier :: "nat \<Rightarrow> ('n::{minus,uminus,one}) NumericPriorityScheduler \<Rightarrow> 'n Event list \<Rightarrow> PrefetchResource list" where
  "parsedIntoTier p s [] = []"
| "parsedIntoTier p s (ev # evs) = parsedBy p s ev @ parsedIntoTier p (handleEvent s ev) evs"


section \<open>Example inputs\<close>

text \<open>
  A response that carries a hint header, and the details of a request for a URL. The
  first hint puts \<open>a\<close> and \<open>b\<close> in tier 0 and \<open>c\<close> in tier 5; the second puts the same
  URL eight times in tier 0.
\<close>

definition hintDetails :: "string \<Rightarrow> int Details" where
  "hintDetails hint =
     \<lparr>details_url = ''https://example.test/'', requestId = ''1'', timeStamp = 0,
      requestHeaders = [],
      responseHeaders = [\<lparr>name = ''X-Prefetch'', value = hint\<rparr>]\<rparr>"

definition requestDetails :: "string \<Rightarrow> string \<Rightarrow> int \<Rightarrow> int Details" where
  "requestDetails u i t =
     \<lparr>details_url = u, requestId = i, timeStamp = t, requestHeaders = [],
      responseHeaders = []\<rparr>"

definition exampleHint :: string where
  "exampleHint =
     ''<a>;priority=0;type=script|$de|<b>;priority=0;type=style|$de|<c>;priority=5;type=image''"

definition sameUrlHint :: string where
  "sameUrlHint =
     ''<u>;priority=0;type=script|$de|<u>;priority=0;type=script|$de|<u>;priority=0;type=script|$de|<u>;priority=0;type=script|$de|<u>;priority=0;type=script|$de|<u>;priority=0;type=script|$de|<u>;priority=0;type=script|$de|<u>;priority=0;type=script''"

definition eightUrlsHint :: string where
  "eightUrlsHint =
     ''<r1>;priority=0;type=script|$de|<r2>;priority=0;type=script|$de|<r3>;priority=0;type=script|$de|<r4>;priority=0;type=script|$de|<r5>;priority=0;type=script|$de|<r6>;priority=0;type=script|$de|<r7>;priority=0;type=script|$de|<r8>;priority=0;type=script''"

text \<open>
  A run in which the browser itself requests \<open>a\<close> before the content script is ready:
  the hints arrive, \<open>a\<close> is requested, the content script reports in (the scheduler passes
  \<open>a\<close> and \<open>b\<close> of tier 0 to \<^verbatim>\<open>fetchDependency\<close>), the prefetch of \<open>b\<close> goes out.
  The next event is the completion of \<open>b\<close>.
\<close>

definition lateRun :: "int Event list" where
  "lateRun =
     [Run,
      HeadersReceived (hintDetails exampleHint),
      SendHeaders (requestDetails ''a'' ''2'' 5),
      ContentMessage CONTENT_SCRIPT_INIT,
      SendHeaders (requestDetails ''b'' ''3'' 6)]"

definition lateEvent :: "int Event" where
  "lateEvent = FetchSucceed (requestDetails ''b'' ''3'' 9)"


section \<open>Theorems about the tracker\<close>

lemma registerRequest_doms:
  "dom (requestTimes (registerRequest tt i t p)) = insert i (dom (requestTimes tt))"
  "dom (completeTimes (registerRequest tt i t p)) = insert i (dom (completeTimes tt))"
  "dom (prefetched (registerRequest tt i t p)) = insert i (dom (prefetched tt))"
  by (simp_all add: registerRequest_def)

lemma completeRequest_doms:
  "requestTimes (snd (completeRequest tt i t)) = requestTimes tt"
  "prefetched (snd (completeRequest tt i t)) = prefetched tt"
  "dom (completeTimes (snd (completeRequest tt i t)))
     = dom (completeTimes tt) \<union> ({i} \<inter> dom (requestTimes tt))"
  by (auto simp: completeRequest_def split: option.splits)

lemma trackerCall_keeps_keys:
  "dom (requestTimes tt) \<subseteq> dom (requestTimes (trackerCall tt c))"
  "dom (completeTimes tt) \<subseteq> dom (completeTimes (trackerCall tt c))"
  "dom (prefetched tt) \<subseteq> dom (prefetched (trackerCall tt c))"
  by (cases c; auto simp: registerRequest_doms completeRequest_doms)+

lemma registeredIds_snoc:
  "set (registeredIds (calls @ [c]))
     = set (registeredIds calls) \<union> (case registeredId c of None \<Rightarrow> {} | Some i \<Rightarrow> {i})"
  by (auto simp: registeredIds_def List.map_filter_def split: option.splits)

lemma trackerCalls_snoc: "trackerCalls (calls @ [c]) = trackerCall (trackerCalls calls) c"
  by (simp add: trackerCalls_def)

lemma trackerCalls_doms:
  "dom (requestTimes (trackerCalls calls)) = set (registeredIds calls)
   \<and> dom (completeTimes (trackerCalls calls)) = set (registeredIds calls)
   \<and> dom (prefetched (trackerCalls calls)) = set (registeredIds calls)"
proof (induction calls rule: rev_induct)
  case Nil
  show ?case
    by (simp add: trackerCalls_def TimeTracker_new_def registeredIds_def List.map_filter_def)
next
  case (snoc c calls)
  show ?case
  proof (cases c)
    case (RegisterRequest i t p)
    with snoc show ?thesis
      by (simp add: trackerCalls_snoc registerRequest_doms registeredIds_snoc)
  next
    case (CompleteRequest i t)
    with snoc show ?thesis
      by (auto simp: trackerCalls_snoc completeRequest_doms registeredIds_snoc)
  qed (use snoc in \<open>simp_all add: trackerCalls_snoc registeredIds_snoc\<close>)
qed

lemma trackerCall_unregistered:
  "requestTimes tt requestID = None \<Longrightarrow> \<not> registers requestID c \<Longrightarrow>
   requestTimes (trackerCall tt c) requestID = None"
  by (cases c) (auto simp: registerRequest_def completeRequest_def split: option.splits)

lemma foldl_trackerCall_unregistered:
  "requestTimes tt requestID = None \<Longrightarrow> \<forall>c \<in> set cs. \<not> registers requestID c \<Longrightarrow>
   requestTimes (foldl trackerCall tt cs) requestID = None"
  by (induction cs arbitrary: tt) (simp_all add: trackerCall_unregistered)

lemma trackerCall_keeps_requestTime:
  "requestTimes tt requestID = Some t0 \<Longrightarrow> \<not> registers requestID c \<Longrightarrow>
   requestTimes (trackerCall tt c) requestID = Some t0"
  by (cases c) (auto simp: registerRequest_def completeRequest_def split: option.splits)

lemma foldl_trackerCall_keeps_requestTime:
  "requestTimes tt requestID = Some t0 \<Longrightarrow> \<forall>c \<in> set cs. \<not> registers requestID c \<Longrightarrow>
   requestTimes (foldl trackerCall tt cs) requestID = Some t0"
  by (induction cs arbitrary: tt) (simp_all add: trackerCall_keeps_requestTime)

text \<open>
  C2. For every tracker, id and timestamps \<open>t0\<close>, \<open>t1\<close>: after
  \<open>registerRequest(id, t0, _)\<close>, and after any further calls of the tracker's methods
  that do not register the id again (registrations and completions of other requests,
  an earlier completion of this one, queries), \<open>completeRequest(id, t1)\<close> returns
  \<open>t1 - t0\<close> and records \<open>t1\<close> as the complete timestamp. On an id that no call since
  the construction of the tracker has registered, \<open>completeRequest\<close> returns \<open>-1\<close> and
  the tracker afterwards is the tracker before. The subtraction and \<open>-1\<close> are those of
  the number type, whatever it is.
\<close>

theorem completeRequest_timing:
  "((\<forall>c \<in> set later. \<not> registers requestID c) \<longrightarrow>
      fst (completeRequest
             (foldl trackerCall (registerRequest tt requestID t0 isPrefetch) later)
             requestID t1) = t1 - t0
      \<and> completeTimes
            (snd (completeRequest
                    (foldl trackerCall (registerRequest tt requestID t0 isPrefetch) later)
                    requestID t1)) requestID = Some t1
      \<and> getCompleteTime
            (snd (completeRequest
                    (foldl trackerCall (registerRequest tt requestID t0 isPrefetch) later)
                    requestID t1)) requestID = t1)
   \<and> ((\<forall>c \<in> set calls. \<not> registers requestID c) \<longrightarrow>
        completeRequest (trackerCalls calls) requestID t1 = (- 1, trackerCalls calls))"
proof (rule conjI; rule impI)
  assume later: "\<forall>c \<in> set later. \<not> registers requestID c"
  define tt' where "tt' = foldl trackerCall (registerRequest tt requestID t0 isPrefetch) later"
  have "requestTimes (registerRequest tt requestID t0 isPrefetch) requestID = Some t0"
    by (simp add: registerRequest_def)
  then have "requestTimes tt' requestID = Some t0"
    unfolding tt'_def using later by (rule foldl_trackerCall_keeps_requestTime)
  then show "fst (completeRequest
             (foldl trackerCall (registerRequest tt requestID t0 isPrefetch) later)
             requestID t1) = t1 - t0
      \<and> completeTimes
            (snd (completeRequest
                    (foldl trackerCall (registerRequest tt requestID t0 isPrefetch) later)
                    requestID t1)) requestID = Some t1
      \<and> getCompleteTime
            (snd (completeRequest
                    (foldl trackerCall (registerRequest tt requestID t0 isPrefetch) later)
                    requestID t1)) requestID = t1"
    unfolding tt'_def [symmetric]
    by (simp add: completeRequest_def getCompleteTime_def)
next
  assume "\<forall>c \<in> set calls. \<not> registers requestID c"
  then have "requestTimes (trackerCalls calls) requestID = None"
    unfolding trackerCalls_def
    by (intro foldl_trackerCall_unregistered) (simp_all add: TimeTracker_new_def)
  then show "completeRequest (trackerCalls calls) requestID t1 = (- 1, trackerCalls calls)"
    by (simp add: completeRequest_def)
qed

theorem completeRequest_timing_witness:
  "\<not> registers ''7'' (RegisterRequest ''8'' (105.5 :: real) False)
   \<and> \<not> registers ''7'' (CompleteRequest ''8'' (120 :: real))
   \<and> \<not> registers ''7'' (CompleteRequest ''7'' (125 :: real))
   \<and> \<not> registers ''7'' (IsPrefetchRequest ''7'' :: real TrackerCall)
   \<and> fst (completeRequest
            (foldl trackerCall (registerRequest TimeTracker_new ''7'' (100.5 :: real) True)
               [RegisterRequest ''8'' 105.5 False, CompleteRequest ''8'' 120,
                CompleteRequest ''7'' 125, IsPrefetchRequest ''7''])
            ''7'' 130.25) = 29.75
   \<and> getCompleteTime
        (snd (completeRequest
            (foldl trackerCall (registerRequest TimeTracker_new ''7'' (100.5 :: real) True)
               [RegisterRequest ''8'' 105.5 False, CompleteRequest ''8'' 120,
                CompleteRequest ''7'' 125, IsPrefetchRequest ''7''])
            ''7'' 130.25)) ''7'' = 130.25
   \<and> completeRequest
        (trackerCalls [RegisterRequest ''8'' (105.5 :: real) False, CompleteRequest ''8'' 120])
        ''7'' 130.25
       = (- 1, trackerCalls [RegisterRequest ''8'' 105.5 False, CompleteRequest ''8'' 120])"
  using completeRequest_timing
      [where requestID = "''7''" and tt = "TimeTracker_new :: real TimeTracker"
         and ?t0.0 = "100.5" and isPrefetch = True and ?t1.0 = "130.25"
         and later = "[RegisterRequest ''8'' 105.5 False, CompleteRequest ''8'' 120,
                       CompleteRequest ''7'' 125, IsPrefetchRequest ''7'']"
         and calls = "[RegisterRequest ''8'' 105.5 False, CompleteRequest ''8'' 120]"]
  by simp

text \<open>
  C9. The three maps \<open>requestTimes_\<close>, \<open>completeTimes_\<close> and \<open>prefetched_\<close> of a
  tracker always have the same key set. In the tracker reached from a new one by any
  sequence of calls, the key set of each map is the set of the ids that the calls
  registered; \<open>registerRequest\<close> inserts its id into all three maps;
  \<open>completeRequest\<close> leaves \<open>requestTimes_\<close> and \<open>prefetched_\<close> as they are and
  writes \<open>completeTimes_\<close> only at an id that \<open>requestTimes_\<close> holds; no call removes
  a key from any map. So the \<open>requestTimes_.has\<close> guard is membership in any of the
  three maps.
\<close>

theorem tracker_maps_same_keys:
  "dom (requestTimes (trackerCalls calls)) = set (registeredIds calls)
   \<and> dom (completeTimes (trackerCalls calls)) = set (registeredIds calls)
   \<and> dom (prefetched (trackerCalls calls)) = set (registeredIds calls)
   \<and> dom (requestTimes (registerRequest tt requestID t isPrefetch))
       = insert requestID (dom (requestTimes tt))
   \<and> dom (completeTimes (registerRequest tt requestID t isPrefetch))
       = insert requestID (dom (completeTimes tt))
   \<and> dom (prefetched (registerRequest tt requestID t isPrefetch))
       = insert requestID (dom (prefetched tt))
   \<and> requestTimes (snd (completeRequest tt requestID t)) = requestTimes tt
   \<and> prefetched (snd (completeRequest tt requestID t)) = prefetched tt
   \<and> dom (completeTimes (snd (completeRequest tt requestID t)))
       = dom (completeTimes tt) \<union> ({requestID} \<inter> dom (requestTimes tt))
   \<and> dom (requestTimes tt) \<subseteq> dom (requestTimes (trackerCall tt c))
   \<and> dom (completeTimes tt) \<subseteq> dom (completeTimes (trackerCall tt c))
   \<and> dom (prefetched tt) \<subseteq> dom (prefetched (trackerCall tt c))
   \<and> (requestTimes (trackerCalls calls) requestID \<noteq> None)
       = (completeTimes (trackerCalls calls) requestID \<noteq> None)
   \<and> (requestTimes (trackerCalls calls) requestID \<noteq> None)
       = (prefetched (trackerCalls calls) requestID \<noteq> None)"
proof -
  have g: "(requestTimes (trackerCalls calls) requestID \<noteq> None)
       = (completeTimes (trackerCalls calls) requestID \<noteq> None)"
    "(requestTimes (trackerCalls calls) requestID \<noteq> None)
       = (prefetched (trackerCalls calls) requestID \<noteq> None)"
  proof -
    have "requestID \<in> dom (requestTimes (trackerCalls calls))
        \<longleftrightarrow> requestID \<in> dom (completeTimes (trackerCalls calls))"
      "requestID \<in> dom (requestTimes (trackerCalls calls))
        \<longleftrightarrow> requestID \<in> dom (prefetched (trackerCalls calls))"
      using trackerCalls_doms [of calls] by simp_all
    then show "(requestTimes (trackerCalls calls) requestID \<noteq> None)
       = (completeTimes (trackerCalls calls) requestID \<noteq> None)"
      "(requestTimes (trackerCalls calls) requestID \<noteq> None)
       = (prefetched (trackerCalls calls) requestID \<noteq> None)"
      by (simp_all only: domIff)
  qed
  show ?thesis
    using trackerCalls_doms [of calls] registerRequest_doms [of tt requestID t isPrefetch]
      completeRequest_doms [of tt requestID t] trackerCall_keeps_keys [of tt c] g
    by blast
qed

theorem tracker_maps_same_keys_witness:
  "dom (requestTimes (trackerCalls
      [RegisterRequest ''7'' (100 :: int) True, CompleteRequest ''9'' 5,
       RegisterRequest ''8'' 105 False, CompleteRequest ''7'' 130])) = {''7'', ''8''}
   \<and> dom (completeTimes (trackerCalls
      [RegisterRequest ''7'' (100 :: int) True, CompleteRequest ''9'' 5,
       RegisterRequest ''8'' 105 False, CompleteRequest ''7'' 130])) = {''7'', ''8''}
   \<and> dom (prefetched (trackerCalls
      [RegisterRequest ''7'' (100 :: int) True, CompleteRequest ''9'' 5,
       RegisterRequest ''8'' 105 False, CompleteRequest ''7'' 130])) = {''7'', ''8''}
   \<and> set (registeredIds
      [RegisterRequest ''7'' (100 :: int) True, CompleteRequest ''9'' 5,
       RegisterRequest ''8'' 105 False, CompleteRequest ''7'' 130]) = {''7'', ''8''}
   \<and> dom (requestTimes (registerRequest (TimeTracker_new :: int TimeTracker) ''7'' 100 True))
       = {''7''}
   \<and> dom (completeTimes (registerRequest (TimeTracker_new :: int TimeTracker) ''7'' 100 True))
       = {''7''}
   \<and> dom (prefetched (registerRequest (TimeTracker_new :: int TimeTracker) ''7'' 100 True))
       = {''7''}"
proof -
  have r: "set (registeredIds
      [RegisterRequest ''7'' (100 :: int) True, CompleteRequest ''9'' 5,
       RegisterRequest ''8'' 105 False, CompleteRequest ''7'' 130]) = {''7'', ''8''}"
    by (simp add: registeredIds_def List.map_filter_def)
  have e: "dom (requestTimes (TimeTracker_new :: int TimeTracker)) = {}"
    "dom (completeTimes (TimeTracker_new :: int TimeTracker)) = {}"
    "dom (prefetched (TimeTracker_new :: int TimeTracker)) = {}"
    by (simp_all add: TimeTracker_new_def)
  from tracker_maps_same_keys
      [where calls = "[RegisterRequest ''7'' (100 :: int) True, CompleteRequest ''9'' 5,
                       RegisterRequest ''8'' 105 False, CompleteRequest ''7'' 130]"
         and tt = "TimeTracker_new :: int TimeTracker" and requestID = "''7''" and t = 100
         and isPrefetch = True]
    r e
  show ?thesis by simp
qed


section \<open>Lemmas about the scheduler\<close>


lemma set_size_set_add_le: "set_size (set_add xs x) \<le> Suc (set_size xs)"
  by (simp add: set_size_def set_add_def)

lemma set_size_set_delete_le: "set_size (set_delete xs x) \<le> set_size xs"
  by (simp add: set_size_def set_delete_def)

lemma fetchDependency_size:
  "set_size (outstandingPrefetchUrls (fetchDependency s r p))
     \<le> Suc (set_size (outstandingPrefetchUrls s))"
  by (simp add: fetchDependency_def notifyContentScript_def Let_def set_size_set_add_le)

lemma fetchQueued_size:
  "set_size (outstandingPrefetchUrls (fetchQueued s))
     \<le> max (set_size (outstandingPrefetchUrls s)) OUTSTANDING_REQUESTS_ALLOWED"
proof (induction s rule: fetchQueued.induct)
  case (1 s)
  show ?case
  proof (cases "set_size (outstandingPrefetchUrls s) < OUTSTANDING_REQUESTS_ALLOWED
                \<and> length (queuedPrefetches s) > 0")
    case True
    let ?s' = "fetchDependency (s\<lparr>queuedPrefetches := tl (queuedPrefetches s)\<rparr>)
                 (hd (queuedPrefetches s)) (curFetchPriority s)"
    have "set_size (outstandingPrefetchUrls ?s') \<le> Suc (set_size (outstandingPrefetchUrls s))"
      using fetchDependency_size [of "s\<lparr>queuedPrefetches := tl (queuedPrefetches s)\<rparr>"] by simp
    with True have "set_size (outstandingPrefetchUrls ?s') \<le> OUTSTANDING_REQUESTS_ALLOWED"
      by simp
    moreover have "set_size (outstandingPrefetchUrls (fetchQueued ?s'))
        \<le> max (set_size (outstandingPrefetchUrls ?s')) OUTSTANDING_REQUESTS_ALLOWED"
      using True by (intro "1.IH") simp_all
    moreover have "fetchQueued s = fetchQueued ?s'"
      using True by (subst fetchQueued.simps) simp
    ultimately show ?thesis by simp
  next
    case False
    then have "fetchQueued s = s" by (subst fetchQueued.simps) auto
    then show ?thesis by simp
  qed
qed

lemma fetchQueued_at_capacity:
  "\<not> set_size (outstandingPrefetchUrls s) < OUTSTANDING_REQUESTS_ALLOWED \<Longrightarrow> fetchQueued s = s"
  by (subst fetchQueued.simps) simp

lemma handleFetchCompleted_size:
  "set_size (outstandingPrefetchUrls (handleFetchCompleted s fetchedURL))
     \<le> max (set_size (outstandingPrefetchUrls s)) OUTSTANDING_REQUESTS_ALLOWED"
proof (cases "set_size (outstandingPrefetchUrls s) \<ge> OUTSTANDING_REQUESTS_ALLOWED")
  case True
  then show ?thesis
    by (simp add: handleFetchCompleted_def notifyContentScript_def Let_def)
next
  case False
  define s1 where "s1 = notifyContentScript s Message_Info"
  define s2 where "s2 =
     (if set_size (outstandingPrefetchUrls s1) = 0 \<and> nextPriority_from (dependencies s1) 0 \<noteq> - 1
          \<and> length (queuedPrefetches s1) = 0
      then (case drain (dependencies s1 ! nat (nextPriority_from (dependencies s1) 0))
                   (queuedPrefetches s1) of
              (bucket, queued) \<Rightarrow>
                s1\<lparr>dependencies := (dependencies s1)[nat (nextPriority_from (dependencies s1) 0) := bucket],
                   queuedPrefetches := queued,
                   curFetchPriority := nextPriority_from (dependencies s1) 0\<rparr>)
      else s1)"
  have o2: "outstandingPrefetchUrls s2 = outstandingPrefetchUrls s"
    by (simp add: s2_def s1_def notifyContentScript_def split: prod.splits)
  have "handleFetchCompleted s fetchedURL = fetchQueued (notifyContentScript s2 Message_Info)"
    using False by (simp add: handleFetchCompleted_def Let_def s2_def s1_def notifyContentScript_def)
  moreover have "outstandingPrefetchUrls (notifyContentScript s2 Message_Info)
      = outstandingPrefetchUrls s"
    using o2 by (simp add: notifyContentScript_def)
  ultimately show ?thesis
    using fetchQueued_size [of "notifyContentScript s2 Message_Info"] by simp
qed

lemma handleFetchCompleted_adds_below_capacity:
  "outstandingPrefetchUrls (handleFetchCompleted s fetchedURL) \<noteq> outstandingPrefetchUrls s \<Longrightarrow>
   set_size (outstandingPrefetchUrls s) < OUTSTANDING_REQUESTS_ALLOWED"
  by (rule ccontr) (simp add: handleFetchCompleted_def notifyContentScript_def Let_def)

lemma onSendHeaders_outstanding:
  "outstandingPrefetchUrls (onSendHeaders s details) = outstandingPrefetchUrls s"
  by (simp add: onSendHeaders_def notifyContentScript_def Let_def)

lemma onHeadersReceived_forEach_outstanding:
  "outstandingPrefetchUrls (fst (onHeadersReceived_forEach s hs)) = outstandingPrefetchUrls s"
  by (induction s hs rule: onHeadersReceived_forEach.induct)
     (auto split: prod.splits option.splits)

lemma fst_onHeadersReceived:
  "fst (onHeadersReceived s details)
     = fst (onHeadersReceived_forEach (notifyContentScript s Message_Info) (responseHeaders details))"
  by (simp add: onHeadersReceived_def split: prod.splits option.splits)

lemma onHeadersReceived_outstanding:
  "outstandingPrefetchUrls (fst (onHeadersReceived s details)) = outstandingPrefetchUrls s"
  by (simp add: fst_onHeadersReceived onHeadersReceived_forEach_outstanding notifyContentScript_def)

lemma onFetchCompleted_size:
  "set_size (outstandingPrefetchUrls (onFetchCompleted s details))
     \<le> max (set_size (outstandingPrefetchUrls s)) OUTSTANDING_REQUESTS_ALLOWED"
proof -
  let ?s1 = "s\<lparr>outstandingPrefetchUrls :=
                 set_delete (outstandingPrefetchUrls s) (details_url details)\<rparr>"
  have "outstandingPrefetchUrls (onFetchCompleted s details)
      = outstandingPrefetchUrls (handleFetchCompleted ?s1 (details_url details))"
    by (simp add: onFetchCompleted_def notifyContentScript_def Let_def split: prod.splits)
  moreover have "set_size (outstandingPrefetchUrls ?s1) \<le> set_size (outstandingPrefetchUrls s)"
    by (simp add: set_size_set_delete_le)
  ultimately show ?thesis
    using handleFetchCompleted_size [of ?s1 "details_url details"] by simp
qed

lemma handleEvent_size:
  "set_size (outstandingPrefetchUrls (handleEvent s ev))
     \<le> max (set_size (outstandingPrefetchUrls s)) OUTSTANDING_REQUESTS_ALLOWED"
proof (cases ev)
  case Run
  then show ?thesis by (simp add: run_def notifyContentScript_def)
next
  case (SendHeaders d)
  then show ?thesis by (simp add: onSendHeaders_outstanding)
next
  case (HeadersReceived d)
  then show ?thesis by (simp add: onHeadersReceived_outstanding)
next
  case (FetchSucceed d)
  then show ?thesis
    using onFetchCompleted_size [of "notifyContentScript s Message_Info" d]
    by (simp add: onFetchSucceed_def notifyContentScript_def)
next
  case (ErrorOccurred d)
  then show ?thesis
    using onFetchCompleted_size [of "notifyContentScript s Message_Info" d]
    by (simp add: onErrorOccurred_def notifyContentScript_def)
next
  case (ContentMessage m)
  then show ?thesis
    using handleFetchCompleted_size [of s "''INIT''"]
    by (cases m) (simp_all add: onContentMessage_def)
qed

lemma foldl_handleEvent_size:
  "set_size (outstandingPrefetchUrls s) \<le> OUTSTANDING_REQUESTS_ALLOWED \<Longrightarrow>
   set_size (outstandingPrefetchUrls (foldl handleEvent s evs)) \<le> OUTSTANDING_REQUESTS_ALLOWED"
proof (induction evs arbitrary: s)
  case Nil
  then show ?case by simp
next
  case (Cons ev evs)
  have "set_size (outstandingPrefetchUrls (handleEvent s ev)) \<le> OUTSTANDING_REQUESTS_ALLOWED"
    using handleEvent_size [of s ev] Cons.prems by simp
  then show ?case by (simp add: Cons.IH)
qed

lemma fetchedUrls_simps [simp]:
  "fetchedUrls [] = []"
  "fetchedUrls (ms @ ns) = fetchedUrls ms @ fetchedUrls ns"
  "fetchedUrls (m # ms) = (case fetchedUrl m of None \<Rightarrow> [] | Some u \<Rightarrow> [u]) @ fetchedUrls ms"
  by (simp_all add: fetchedUrls_def List.map_filter_def split: option.splits)

lemma drain_eq: "drain bucket queued = ([], queued @ bucket)"
  by (induction bucket arbitrary: queued) simp_all

lemma nextPriority_from_none:
  "nextPriority_from deps i = - 1 \<Longrightarrow> i \<le> j \<Longrightarrow> j < length deps \<Longrightarrow> deps ! j = []"
proof (induction deps i rule: nextPriority_from.induct)
  case (1 deps i)
  from "1.prems" have i: "i < length deps" by simp
  from "1.prems"(1) i have e: "deps ! i = []" and n: "nextPriority_from deps (Suc i) = - 1"
    by (subst (asm) nextPriority_from.simps, simp split: if_splits)+
  show ?case
  proof (cases "j = i")
    case True
    with e show ?thesis by simp
  next
    case False
    with "1.prems" have "Suc i \<le> j" by simp
    with "1.IH" i e n "1.prems"(3) show ?thesis by simp
  qed
qed

lemma nextPriority_from_some:
  "nextPriority_from deps i \<noteq> - 1 \<Longrightarrow>
   \<exists>p. nextPriority_from deps i = int p \<and> i \<le> p \<and> p < length deps \<and> deps ! p \<noteq> []
       \<and> (\<forall>j. i \<le> j \<and> j < p \<longrightarrow> deps ! j = [])"
proof (induction deps i rule: nextPriority_from.induct)
  case (1 deps i)
  from "1.prems" have i: "i < length deps"
    by (subst (asm) nextPriority_from.simps) (simp split: if_splits)
  show ?case
  proof (cases "deps ! i = []")
    case False
    with i have "nextPriority_from deps i = int i"
      by (subst nextPriority_from.simps) simp
    with i False show ?thesis by auto
  next
    case True
    with i have eq: "nextPriority_from deps i = nextPriority_from deps (Suc i)"
      by (subst nextPriority_from.simps) simp
    with "1.prems" have "nextPriority_from deps (Suc i) \<noteq> - 1" by simp
    with "1.IH" i True obtain p where p: "nextPriority_from deps (Suc i) = int p" "Suc i \<le> p"
      "p < length deps" "deps ! p \<noteq> []" "\<forall>j. Suc i \<le> j \<and> j < p \<longrightarrow> deps ! j = []"
      by auto
    have "\<forall>j. i \<le> j \<and> j < p \<longrightarrow> deps ! j = []"
    proof (intro allI impI)
      fix j assume "i \<le> j \<and> j < p"
      then show "deps ! j = []" using True p(5) by (cases "j = i") auto
    qed
    with p eq show ?thesis by auto
  qed
qed

lemma fetchDependency_fields:
  "queuedPrefetches (fetchDependency s r p) = queuedPrefetches s"
  "dependencies (fetchDependency s r p) = dependencies s"
  "curFetchPriority (fetchDependency s r p) = curFetchPriority s"
  "requestedURLs (fetchDependency s r p) = requestedURLs s"
  "navigatedToDst (fetchDependency s r p) = navigatedToDst s"
  by (simp_all add: fetchDependency_def notifyContentScript_def Let_def)

lemma fetchDependency_sent:
  "\<exists>m. sent (fetchDependency s r p) = sent s @ [m] \<and> fetchedUrl m = Some (url r)"
  by (simp add: fetchDependency_def notifyContentScript_def Let_def)

lemma fetchQueued_char:
  "\<exists>k ms. k \<le> length (queuedPrefetches s)
     \<and> queuedPrefetches (fetchQueued s) = drop k (queuedPrefetches s)
     \<and> sent (fetchQueued s) = sent s @ ms
     \<and> fetchedUrls ms = map url (take k (queuedPrefetches s))
     \<and> dependencies (fetchQueued s) = dependencies s
     \<and> curFetchPriority (fetchQueued s) = curFetchPriority s"
proof (induction s rule: fetchQueued.induct)
  case (1 s)
  show ?case
  proof (cases "set_size (outstandingPrefetchUrls s) < OUTSTANDING_REQUESTS_ALLOWED
                \<and> length (queuedPrefetches s) > 0")
    case False
    then have "fetchQueued s = s" by (subst fetchQueued.simps) auto
    then show ?thesis by (intro exI [of _ 0] exI [of _ "[]"]) simp
  next
    case True
    let ?s0 = "s\<lparr>queuedPrefetches := tl (queuedPrefetches s)\<rparr>"
    let ?s' = "fetchDependency ?s0 (hd (queuedPrefetches s)) (curFetchPriority s)"
    have eq: "fetchQueued s = fetchQueued ?s'"
      using True by (subst fetchQueued.simps) simp
    from True obtain r rs where q: "queuedPrefetches s = r # rs"
      by (cases "queuedPrefetches s") auto
    obtain m where m: "sent ?s' = sent s @ [m]" "fetchedUrl m = Some (url r)"
      using fetchDependency_sent [of ?s0 "hd (queuedPrefetches s)" "curFetchPriority s"] q
      by auto
    have f: "queuedPrefetches ?s' = rs" "dependencies ?s' = dependencies s"
      "curFetchPriority ?s' = curFetchPriority s"
      using q by (simp_all add: fetchDependency_fields)
    from "1.IH" True obtain k ms where k: "k \<le> length (queuedPrefetches ?s')"
      "queuedPrefetches (fetchQueued ?s') = drop k (queuedPrefetches ?s')"
      "sent (fetchQueued ?s') = sent ?s' @ ms"
      "fetchedUrls ms = map url (take k (queuedPrefetches ?s'))"
      "dependencies (fetchQueued ?s') = dependencies ?s'"
      "curFetchPriority (fetchQueued ?s') = curFetchPriority ?s'"
      by blast
    show ?thesis
      apply (rule exI [of _ "Suc k"])
      apply (rule exI [of _ "m # ms"])
      using k m f q by (simp add: eq)
  qed
qed


lemma handleFetchCompleted_cases:
  obtains
    (full) "OUTSTANDING_REQUESTS_ALLOWED \<le> set_size (outstandingPrefetchUrls s)"
      "handleFetchCompleted s u = s\<lparr>sent := sent s @ [Message_Info]\<rparr>"
  | (batch) p where "outstandingPrefetchUrls s = []" "queuedPrefetches s = []"
      "p < length (dependencies s)" "dependencies s ! p \<noteq> []"
      "\<forall>i<p. dependencies s ! i = []"
      "handleFetchCompleted s u =
         fetchQueued (s\<lparr>dependencies := (dependencies s)[p := []],
                        queuedPrefetches := dependencies s ! p,
                        curFetchPriority := int p,
                        sent := sent s @ [Message_Info, Message_Info]\<rparr>)"
  | (nobatch) "set_size (outstandingPrefetchUrls s) < OUTSTANDING_REQUESTS_ALLOWED"
      "outstandingPrefetchUrls s \<noteq> [] \<or> queuedPrefetches s \<noteq> []
         \<or> (\<forall>i<length (dependencies s). dependencies s ! i = [])"
      "handleFetchCompleted s u = fetchQueued (s\<lparr>sent := sent s @ [Message_Info, Message_Info]\<rparr>)"
proof (cases "OUTSTANDING_REQUESTS_ALLOWED \<le> set_size (outstandingPrefetchUrls s)")
  case True
  then show ?thesis
    by (intro full) (simp_all add: handleFetchCompleted_def notifyContentScript_def Let_def)
next
  case False
  show ?thesis
  proof (cases "set_size (outstandingPrefetchUrls s) = 0
                \<and> nextPriority_from (dependencies s) 0 \<noteq> - 1
                \<and> length (queuedPrefetches s) = 0")
    case True
    then obtain p where p: "nextPriority_from (dependencies s) 0 = int p"
      "p < length (dependencies s)" "dependencies s ! p \<noteq> []"
      "\<forall>j. 0 \<le> j \<and> j < p \<longrightarrow> dependencies s ! j = []"
      using nextPriority_from_some [of "dependencies s" 0] by auto
    show ?thesis
    proof (rule batch [of p])
      show "handleFetchCompleted s u =
         fetchQueued (s\<lparr>dependencies := (dependencies s)[p := []],
                        queuedPrefetches := dependencies s ! p,
                        curFetchPriority := int p,
                        sent := sent s @ [Message_Info, Message_Info]\<rparr>)"
        using False True p(1)
        by (simp add: handleFetchCompleted_def notifyContentScript_def Let_def drain_eq)
    qed (use True p in \<open>simp_all add: set_size_def\<close>)
  next
    case nb: False
    show ?thesis
    proof (rule nobatch)
      show "outstandingPrefetchUrls s \<noteq> [] \<or> queuedPrefetches s \<noteq> []
         \<or> (\<forall>i<length (dependencies s). dependencies s ! i = [])"
        using nb nextPriority_from_none [of "dependencies s" 0] by (auto simp: set_size_def)
      show "handleFetchCompleted s u = fetchQueued (s\<lparr>sent := sent s @ [Message_Info, Message_Info]\<rparr>)"
        using False nb
        by (auto simp add: handleFetchCompleted_def notifyContentScript_def Let_def)
    qed (use False in simp)
  qed
qed

lemma handleFetchCompleted_waiting:
  "\<exists>ms. sent (handleFetchCompleted s u) = sent s @ ms
      \<and> (if curFetchPriority (handleFetchCompleted s u) = int p then fetchedUrls ms else [])
          @ map url (waiting (handleFetchCompleted s u) p)
        = map url (waiting s p)"
proof (cases rule: handleFetchCompleted_cases [of s u])
  case full
  then show ?thesis by (intro exI [of _ "[Message_Info]"]) (simp add: waiting_def)
next
  case (batch p0)
  let ?s2 = "s\<lparr>dependencies := (dependencies s)[p0 := []],
                queuedPrefetches := dependencies s ! p0,
                curFetchPriority := int p0,
                sent := sent s @ [Message_Info, Message_Info]\<rparr>"
  obtain k ms where k: "queuedPrefetches (fetchQueued ?s2) = drop k (queuedPrefetches ?s2)"
      "sent (fetchQueued ?s2) = sent ?s2 @ ms"
      "fetchedUrls ms = map url (take k (queuedPrefetches ?s2))"
      "dependencies (fetchQueued ?s2) = dependencies ?s2"
      "curFetchPriority (fetchQueued ?s2) = curFetchPriority ?s2"
    using fetchQueued_char [of ?s2] by blast
  show ?thesis
  proof (intro exI [of _ "[Message_Info, Message_Info] @ ms"] conjI)
    show "sent (handleFetchCompleted s u) = sent s @ [Message_Info, Message_Info] @ ms"
      using batch(6) k(2) by simp
    show "(if curFetchPriority (handleFetchCompleted s u) = int p
           then fetchedUrls ([Message_Info, Message_Info] @ ms) else [])
          @ map url (waiting (handleFetchCompleted s u) p)
        = map url (waiting s p)"
    proof (cases "p = p0")
      case True
      have "map url (take k (dependencies s ! p0)) @ map url (drop k (dependencies s ! p0))
          = map url (dependencies s ! p0)"
        by (simp flip: map_append)
      then show ?thesis
        using True batch k by (simp add: waiting_def)
    next
      case False
      then show ?thesis
        using batch k by (simp add: waiting_def)
    qed
  qed
next
  case nobatch
  let ?s2 = "s\<lparr>sent := sent s @ [Message_Info, Message_Info]\<rparr>"
  obtain k ms where k: "queuedPrefetches (fetchQueued ?s2) = drop k (queuedPrefetches ?s2)"
      "sent (fetchQueued ?s2) = sent ?s2 @ ms"
      "fetchedUrls ms = map url (take k (queuedPrefetches ?s2))"
      "dependencies (fetchQueued ?s2) = dependencies ?s2"
      "curFetchPriority (fetchQueued ?s2) = curFetchPriority ?s2"
    using fetchQueued_char [of ?s2] by blast
  have tk: "map url (take k (queuedPrefetches s)) @ map url (drop k (queuedPrefetches s))
          = map url (queuedPrefetches s)"
    by (simp flip: map_append)
  show ?thesis
  proof (intro exI [of _ "[Message_Info, Message_Info] @ ms"] conjI)
    show "sent (handleFetchCompleted s u) = sent s @ [Message_Info, Message_Info] @ ms"
      using nobatch(3) k(2) by simp
    show "(if curFetchPriority (handleFetchCompleted s u) = int p
           then fetchedUrls ([Message_Info, Message_Info] @ ms) else [])
          @ map url (waiting (handleFetchCompleted s u) p)
        = map url (waiting s p)"
      using nobatch(3) k tk by (simp add: waiting_def)
  qed
qed


lemma parsePrefetchURLs_element_appends:
  assumes "parsePrefetchURLs_element deps e = Inr deps'"
  shows "\<exists>k r. k < length deps \<and> deps' = deps[k := deps ! k @ [r]]"
proof -
  from assms obtain j r where "0 \<le> j" "j < int (length deps)"
    "deps' = deps[nat j := deps ! nat j @ [r]]"
    unfolding parsePrefetchURLs_element_def Let_def
    by (auto split: option.splits if_splits)
  then show ?thesis by (intro exI [of _ "nat j"] exI [of _ r]) simp
qed

lemma parsePrefetchURLs_element_nth:
  assumes "parsePrefetchURLs_element deps e = Inr deps'"
  shows "\<exists>new. deps' ! p = deps ! p @ new"
proof -
  from parsePrefetchURLs_element_appends [OF assms]
  obtain k r where k: "k < length deps" "deps' = deps[k := deps ! k @ [r]]" by blast
  then show ?thesis by (cases "p = k") simp_all
qed

lemma parsePrefetchURLs_forEach_nth:
  "\<exists>new. fst (parsePrefetchURLs_forEach deps es) ! p = deps ! p @ new"
proof (induction es arbitrary: deps)
  case Nil
  then show ?case by simp
next
  case (Cons e es)
  show ?case
  proof (cases "parsePrefetchURLs_element deps e")
    case (Inl err)
    then show ?thesis by simp
  next
    case (Inr deps')
    from parsePrefetchURLs_element_nth [OF Inr] obtain n1 where "deps' ! p = deps ! p @ n1" by blast
    moreover from Cons.IH [of deps'] obtain n2
      where "fst (parsePrefetchURLs_forEach deps' es) ! p = deps' ! p @ n2" by blast
    ultimately show ?thesis using Inr by simp
  qed
qed

lemma parsePrefetchURLs_nth:
  "\<exists>new. fst (parsePrefetchURLs deps str) ! p = deps ! p @ new"
  by (simp add: parsePrefetchURLs_def parsePrefetchURLs_forEach_nth)

lemma onHeadersReceived_forEach_fields:
  "queuedPrefetches (fst (onHeadersReceived_forEach s hs)) = queuedPrefetches s"
  "curFetchPriority (fst (onHeadersReceived_forEach s hs)) = curFetchPriority s"
  "sent (fst (onHeadersReceived_forEach s hs)) = sent s"
  by (induction s hs rule: onHeadersReceived_forEach.induct;
      auto split: prod.splits option.splits)+

lemma onHeadersReceived_forEach_nth:
  "\<exists>new. dependencies (fst (onHeadersReceived_forEach s hs)) ! p = dependencies s ! p @ new"
proof (induction s hs rule: onHeadersReceived_forEach.induct)
  case (1 s)
  then show ?case by simp
next
  case (2 s element rest)
  show ?case
  proof (cases "toLowerCase (name element) = ''x-prefetch''")
    case True
    obtain deps err where pr: "parsePrefetchURLs (dependencies s) (value element) = (deps, err)"
      by (cases "parsePrefetchURLs (dependencies s) (value element)")
    from parsePrefetchURLs_nth [of "dependencies s" "value element" p] pr
    obtain n1 where n1: "deps ! p = dependencies s ! p @ n1" by auto
    show ?thesis
    proof (cases err)
      case None
      from "2.IH"(1) [OF True pr [symmetric] None] obtain n2 where
        "dependencies (fst (onHeadersReceived_forEach (s\<lparr>dependencies := deps\<rparr>) rest)) ! p
           = deps ! p @ n2" by auto
      with True pr None n1 show ?thesis by simp
    next
      case (Some e)
      with True pr n1 show ?thesis by simp
    qed
  next
    case False
    with "2.IH"(2,3) show ?thesis by (cases "toLowerCase (name element) = ''x-lp-url''") auto
  qed
qed

lemma isPrefetchRequest_not_late: "isPrefetchRequest tt i \<noteq> ''late''"
  by (simp add: isPrefetchRequest_def PrefetchStatus_YES_def PrefetchStatus_NO_def
        PrefetchStatus_UNKNOWN_def split: option.splits)

lemma waiting_eqI:
  "curFetchPriority s = curFetchPriority t \<Longrightarrow> queuedPrefetches s = queuedPrefetches t \<Longrightarrow>
   dependencies s = dependencies t \<Longrightarrow> waiting s p = waiting t p"
  by (simp add: waiting_def)

lemma onFetchCompleted_waiting:
  "\<exists>ms. sent (onFetchCompleted s d) = sent s @ ms
      \<and> (if curFetchPriority (onFetchCompleted s d) = int p then fetchedUrls ms else [])
          @ map url (waiting (onFetchCompleted s d) p)
        = map url (waiting s p)"
proof -
  define s1 where "s1 = s\<lparr>outstandingPrefetchUrls :=
                           set_delete (outstandingPrefetchUrls s) (details_url d)\<rparr>"
  define s2 where "s2 = handleFetchCompleted s1 (details_url d)"
  define s5 where "s5 = onFetchCompleted s d"
  obtain ms where ms: "sent s2 = sent s1 @ ms"
    "(if curFetchPriority s2 = int p then fetchedUrls ms else []) @ map url (waiting s2 p)
       = map url (waiting s1 p)"
    unfolding s2_def using handleFetchCompleted_waiting [of s1 "details_url d" p] by blast
  have f: "queuedPrefetches s5 = queuedPrefetches s2" "dependencies s5 = dependencies s2"
    "curFetchPriority s5 = curFetchPriority s2"
    unfolding s5_def s2_def s1_def
    by (simp_all add: onFetchCompleted_def notifyContentScript_def Let_def case_prod_beta)
  have "\<exists>m. sent s5 = sent s2 @ [Message_Debug, m] \<and> fetchedUrl m = None"
    unfolding s5_def s2_def s1_def
    by (simp add: onFetchCompleted_def notifyContentScript_def Let_def case_prod_beta
          isPrefetchRequest_not_late)
  then obtain m where m: "sent s5 = sent s2 @ [Message_Debug, m]" "fetchedUrl m = None"
    by blast
  have w5: "waiting s5 p = waiting s2 p" using f by (intro waiting_eqI) simp_all
  have w1: "waiting s1 p = waiting s p" unfolding s1_def by (intro waiting_eqI) simp_all
  have s1s: "sent s1 = sent s" by (simp add: s1_def)
  have "sent s5 = sent s @ (ms @ [Message_Debug, m])"
    using m(1) ms(1) s1s by simp
  moreover have "fetchedUrls (ms @ [Message_Debug, m]) = fetchedUrls ms"
    using m(2) by simp
  ultimately show ?thesis
    unfolding s5_def [symmetric]
    using ms(2) w5 w1 f(3)
    by (intro exI [of _ "ms @ [Message_Debug, m]"]) (auto split: if_splits)
qed

lemma fetched_lift:
  assumes "sent s' = sent s0 @ ms"
    and "(if curFetchPriority s' = int p then fetchedUrls ms else []) @ map url (waiting s' p)
           = map url (waiting s0 p)"
    and "sent s0 = sent s @ pre" and "fetchedUrls pre = []" and "waiting s0 p = waiting s p"
  shows "(if curFetchPriority s' = int p
          then fetchedUrls (drop (length (sent s)) (sent s')) else [])
           @ map url (waiting s' p)
         = map url (waiting s p)"
proof -
  have "drop (length (sent s)) (sent s') = pre @ ms"
    using assms(1,3) by simp
  then have "fetchedUrls (drop (length (sent s)) (sent s')) = fetchedUrls ms"
    using assms(4) by simp
  then show ?thesis using assms(2,5) by (auto split: if_splits)
qed

lemma handleEvent_waiting:
  "(if curFetchPriority (handleEvent s ev) = int p then fetchedBy s ev else [])
     @ map url (waiting (handleEvent s ev) p)
   = map url (waiting s p) @ map url (parsedBy p s ev)"
proof (cases ev)
  case Run
  then show ?thesis
    by (simp add: fetchedBy_def parsedBy_def run_def notifyContentScript_def waiting_def)
next
  case (SendHeaders d)
  then show ?thesis
    by (simp add: fetchedBy_def parsedBy_def onSendHeaders_def notifyContentScript_def
          waiting_def Let_def)
next
  case (HeadersReceived d)
  let ?s0 = "notifyContentScript s Message_Info"
  obtain new where new: "dependencies (fst (onHeadersReceived_forEach ?s0 (responseHeaders d))) ! p
      = dependencies ?s0 ! p @ new"
    using onHeadersReceived_forEach_nth by blast
  with HeadersReceived show ?thesis
    by (simp add: fetchedBy_def parsedBy_def fst_onHeadersReceived waiting_def
          onHeadersReceived_forEach_fields notifyContentScript_def)
next
  case (FetchSucceed d)
  let ?s0 = "notifyContentScript s Message_Info"
  obtain ms where ms: "sent (onFetchCompleted ?s0 d) = sent ?s0 @ ms"
    "(if curFetchPriority (onFetchCompleted ?s0 d) = int p then fetchedUrls ms else [])
       @ map url (waiting (onFetchCompleted ?s0 d) p)
     = map url (waiting ?s0 p)"
    using onFetchCompleted_waiting by blast
  have "(if curFetchPriority (onFetchCompleted ?s0 d) = int p
         then fetchedUrls (drop (length (sent s)) (sent (onFetchCompleted ?s0 d))) else [])
           @ map url (waiting (onFetchCompleted ?s0 d) p)
         = map url (waiting s p)"
    using ms
  proof (rule fetched_lift)
    show "sent ?s0 = sent s @ [Message_Info]" by (simp add: notifyContentScript_def)
    show "waiting ?s0 p = waiting s p"
      by (intro waiting_eqI) (simp_all add: notifyContentScript_def)
  qed simp
  with FetchSucceed show ?thesis
    by (auto simp add: fetchedBy_def parsedBy_def onFetchSucceed_def split: if_splits)
next
  case (ErrorOccurred d)
  let ?s0 = "notifyContentScript s Message_Info"
  obtain ms where ms: "sent (onFetchCompleted ?s0 d) = sent ?s0 @ ms"
    "(if curFetchPriority (onFetchCompleted ?s0 d) = int p then fetchedUrls ms else [])
       @ map url (waiting (onFetchCompleted ?s0 d) p)
     = map url (waiting ?s0 p)"
    using onFetchCompleted_waiting by blast
  have "(if curFetchPriority (onFetchCompleted ?s0 d) = int p
         then fetchedUrls (drop (length (sent s)) (sent (onFetchCompleted ?s0 d))) else [])
           @ map url (waiting (onFetchCompleted ?s0 d) p)
         = map url (waiting s p)"
    using ms
  proof (rule fetched_lift)
    show "sent ?s0 = sent s @ [Message_Info]" by (simp add: notifyContentScript_def)
    show "waiting ?s0 p = waiting s p"
      by (intro waiting_eqI) (simp_all add: notifyContentScript_def)
  qed simp
  with ErrorOccurred show ?thesis
    by (auto simp add: fetchedBy_def parsedBy_def onErrorOccurred_def split: if_splits)
next
  case (ContentMessage m)
  show ?thesis
  proof (cases "m = CONTENT_SCRIPT_INIT \<and> \<not> initializedContentScript s")
    case True
    let ?s1 = "handleFetchCompleted s ''INIT''"
    let ?s2 = "?s1\<lparr>initializedContentScript := True\<rparr>"
    obtain ms where ms: "sent ?s1 = sent s @ ms"
      "(if curFetchPriority ?s1 = int p then fetchedUrls ms else []) @ map url (waiting ?s1 p)
       = map url (waiting s p)"
      using handleFetchCompleted_waiting by blast
    have w: "waiting ?s2 p = waiting ?s1 p" by (intro waiting_eqI) simp_all
    have "(if curFetchPriority ?s2 = int p
           then fetchedUrls (drop (length (sent s)) (sent ?s2)) else [])
             @ map url (waiting ?s2 p)
           = map url (waiting s p)"
    proof (rule fetched_lift [where ?s0.0 = s and pre = "[]" and ms = ms])
      show "sent ?s2 = sent s @ ms" using ms(1) by simp
      show "(if curFetchPriority ?s2 = int p then fetchedUrls ms else [])
              @ map url (waiting ?s2 p) = map url (waiting s p)"
        using ms(2) w by (auto split: if_splits)
    qed simp_all
    with ContentMessage True show ?thesis
      by (auto simp add: fetchedBy_def parsedBy_def onContentMessage_def split: if_splits)
  next
    case False
    with ContentMessage have "handleEvent s ev = s"
      by (cases m) (auto simp: onContentMessage_def)
    with ContentMessage show ?thesis
      by (simp add: fetchedBy_def parsedBy_def)
  qed
qed

lemma foldl_handleEvent_waiting:
  "fetchedOfTier p s evs @ map url (waiting (foldl handleEvent s evs) p)
   = map url (waiting s p) @ map url (parsedIntoTier p s evs)"
proof (induction evs arbitrary: s)
  case Nil
  then show ?case by simp
next
  case (Cons ev evs)
  have "fetchedOfTier p s (ev # evs) @ map url (waiting (foldl handleEvent s (ev # evs)) p)
      = (if curFetchPriority (handleEvent s ev) = int p then fetchedBy s ev else [])
        @ (fetchedOfTier p (handleEvent s ev) evs
           @ map url (waiting (foldl handleEvent (handleEvent s ev) evs) p))"
    by simp
  also have "\<dots> = (if curFetchPriority (handleEvent s ev) = int p then fetchedBy s ev else [])
        @ (map url (waiting (handleEvent s ev) p)
           @ map url (parsedIntoTier p (handleEvent s ev) evs))"
    by (simp only: Cons.IH)
  also have "\<dots> = (map url (waiting s p) @ map url (parsedBy p s ev))
        @ map url (parsedIntoTier p (handleEvent s ev) evs)"
    using handleEvent_waiting [of s ev p] by (simp only: append_assoc [symmetric])
  finally show ?case by simp
qed

lemma fetchQueued_dependencies: "dependencies (fetchQueued s) = dependencies s"
  using fetchQueued_char [of s] by blast

lemma handleFetchCompleted_drains:
  assumes "dependencies s ! p2 \<noteq> []" and "dependencies (handleFetchCompleted s u) ! p2 = []"
    and "p1 < p2"
  shows "queuedPrefetches s = [] \<and> dependencies s ! p1 = []"
proof (cases rule: handleFetchCompleted_cases [of s u])
  case full
  with assms show ?thesis by simp
next
  case nobatch
  with assms show ?thesis by (simp add: fetchQueued_dependencies)
next
  case (batch p)
  then have d: "dependencies (handleFetchCompleted s u) = (dependencies s)[p := []]"
    by (simp add: fetchQueued_dependencies)
  have "p2 = p"
  proof (rule ccontr)
    assume "p2 \<noteq> p"
    with d have "dependencies (handleFetchCompleted s u) ! p2 = dependencies s ! p2" by simp
    with assms show False by simp
  qed
  with batch assms(3) show ?thesis by simp
qed

lemma onFetchCompleted_dependencies:
  "dependencies (onFetchCompleted s d)
     = dependencies (handleFetchCompleted
         (s\<lparr>outstandingPrefetchUrls := set_delete (outstandingPrefetchUrls s) (details_url d)\<rparr>)
         (details_url d))"
  by (simp add: onFetchCompleted_def notifyContentScript_def Let_def case_prod_beta)

lemma onFetchCompleted_drains:
  assumes "dependencies s ! p2 \<noteq> []" and "dependencies (onFetchCompleted s d) ! p2 = []"
    and "p1 < p2"
  shows "queuedPrefetches s = [] \<and> dependencies s ! p1 = []"
  using handleFetchCompleted_drains
          [of "s\<lparr>outstandingPrefetchUrls := set_delete (outstandingPrefetchUrls s) (details_url d)\<rparr>"
              p2 "details_url d" p1]
    assms
  by (simp add: onFetchCompleted_dependencies)

lemma handleEvent_drains:
  assumes "dependencies s ! p2 \<noteq> []" and "dependencies (handleEvent s ev) ! p2 = []"
    and "p1 < p2"
  shows "waiting s p1 = []"
proof -
  have "queuedPrefetches s = [] \<and> dependencies s ! p1 = []"
  proof (cases ev)
    case Run
    with assms show ?thesis by (simp add: run_def notifyContentScript_def split: if_splits)
  next
    case (SendHeaders d)
    with assms show ?thesis
      by (simp add: onSendHeaders_def notifyContentScript_def Let_def split: if_splits)
  next
    case (HeadersReceived d)
    obtain new where "dependencies (fst (onHeadersReceived_forEach
        (notifyContentScript s Message_Info) (responseHeaders d))) ! p2
      = dependencies (notifyContentScript s Message_Info) ! p2 @ new"
      using onHeadersReceived_forEach_nth by blast
    with HeadersReceived assms show ?thesis
      by (simp add: fst_onHeadersReceived notifyContentScript_def)
  next
    case (FetchSucceed d)
    with assms onFetchCompleted_drains [of "notifyContentScript s Message_Info" p2 d p1]
    show ?thesis by (simp add: onFetchSucceed_def notifyContentScript_def)
  next
    case (ErrorOccurred d)
    with assms onFetchCompleted_drains [of "notifyContentScript s Message_Info" p2 d p1]
    show ?thesis by (simp add: onErrorOccurred_def notifyContentScript_def)
  next
    case (ContentMessage m)
    show ?thesis
    proof (cases "m = CONTENT_SCRIPT_INIT \<and> \<not> initializedContentScript s")
      case True
      with ContentMessage assms handleFetchCompleted_drains [of s p2 "''INIT''" p1]
      show ?thesis by (simp add: onContentMessage_def)
    next
      case False
      with ContentMessage have "handleEvent s ev = s"
        by (cases m) (auto simp: onContentMessage_def)
      with assms show ?thesis by simp
    qed
  qed
  then show ?thesis by (simp add: waiting_def)
qed


lemma dispatchedUrls_simps [simp]:
  "dispatchedUrls [] = []"
  "dispatchedUrls (ms @ ns) = dispatchedUrls ms @ dispatchedUrls ns"
  "dispatchedUrls (m # ms)
     = (case dispatchedUrl m of None \<Rightarrow> [] | Some u \<Rightarrow> [u]) @ dispatchedUrls ms"
  by (simp_all add: dispatchedUrls_def List.map_filter_def split: option.splits)

lemma lateUrls_simps [simp]:
  "lateUrls [] = []"
  "lateUrls (ms @ ns) = lateUrls ms @ lateUrls ns"
  "lateUrls (m # ms) = (case lateUrl m of None \<Rightarrow> [] | Some u \<Rightarrow> [u]) @ lateUrls ms"
  by (simp_all add: lateUrls_def List.map_filter_def split: option.splits)

lemma set_foldl_set_add: "set (foldl set_add xs ys) = set xs \<union> set ys"
  by (induction ys arbitrary: xs) (auto simp: set_add_def)

lemma fetchQueued_outcome:
  "\<exists>ms. sent (fetchQueued s) = sent s @ ms
      \<and> dispatchedUrls ms = filter (\<lambda>x. \<not> set_has (requestedURLs s) x) (fetchedUrls ms)
      \<and> lateUrls ms = filter (\<lambda>x. set_has (requestedURLs s) x) (fetchedUrls ms)
      \<and> outstandingPrefetchUrls (fetchQueued s)
          = foldl set_add (outstandingPrefetchUrls s) (dispatchedUrls ms)
      \<and> requestedURLs (fetchQueued s) = requestedURLs s"
proof (induction s rule: fetchQueued.induct)
  case (1 s)
  show ?case
  proof (cases "set_size (outstandingPrefetchUrls s) < OUTSTANDING_REQUESTS_ALLOWED
                \<and> length (queuedPrefetches s) > 0")
    case False
    then have "fetchQueued s = s" by (subst fetchQueued.simps) auto
    then show ?thesis by (intro exI [of _ "[]"]) simp
  next
    case True
    let ?r = "hd (queuedPrefetches s)"
    let ?s0 = "s\<lparr>queuedPrefetches := tl (queuedPrefetches s)\<rparr>"
    let ?s' = "fetchDependency ?s0 ?r (curFetchPriority s)"
    have eq: "fetchQueued s = fetchQueued ?s'"
      using True by (subst fetchQueued.simps) simp
    have req: "requestedURLs ?s' = requestedURLs s"
      by (simp add: fetchDependency_fields)
    obtain ms where ms: "sent (fetchQueued ?s') = sent ?s' @ ms"
      "dispatchedUrls ms = filter (\<lambda>x. \<not> set_has (requestedURLs s) x) (fetchedUrls ms)"
      "lateUrls ms = filter (\<lambda>x. set_has (requestedURLs s) x) (fetchedUrls ms)"
      "outstandingPrefetchUrls (fetchQueued ?s')
          = foldl set_add (outstandingPrefetchUrls ?s') (dispatchedUrls ms)"
      "requestedURLs (fetchQueued ?s') = requestedURLs s"
      using "1.IH" [OF True] unfolding req by blast
    show ?thesis
    proof (cases "set_has (requestedURLs s) (url ?r)")
      case late: True
      let ?m = "Message_Log (url ?r) '''' (- 1) (- 1) (- 1) ''late''"
      have s': "sent ?s' = sent s @ [?m]"
        "outstandingPrefetchUrls ?s' = outstandingPrefetchUrls s"
        using late by (simp_all add: fetchDependency_def notifyContentScript_def)
      show ?thesis
        using ms s' late by (intro exI [of _ "?m # ms"]) (simp add: eq)
    next
      case fresh: False
      obtain t where s': "sent ?s' = sent s @ [Message_Prefetch t (url ?r) (type ?r)]"
        "outstandingPrefetchUrls ?s' = set_add (outstandingPrefetchUrls s) (url ?r)"
        using fresh by (simp add: fetchDependency_def notifyContentScript_def Let_def)
      show ?thesis
        using ms s' fresh
        by (intro exI [of _ "Message_Prefetch t (url ?r) (type ?r) # ms"]) (simp add: eq)
    qed
  qed
qed

lemma handleFetchCompleted_outcome:
  "\<exists>ms. sent (handleFetchCompleted s u) = sent s @ ms
      \<and> dispatchedUrls ms = filter (\<lambda>x. \<not> set_has (requestedURLs s) x) (fetchedUrls ms)
      \<and> lateUrls ms = filter (\<lambda>x. set_has (requestedURLs s) x) (fetchedUrls ms)
      \<and> outstandingPrefetchUrls (handleFetchCompleted s u)
          = foldl set_add (outstandingPrefetchUrls s) (dispatchedUrls ms)
      \<and> requestedURLs (handleFetchCompleted s u) = requestedURLs s"
proof (cases rule: handleFetchCompleted_cases [of s u])
  case full
  then show ?thesis by (intro exI [of _ "[Message_Info]"]) simp
next
  case (batch p)
  let ?s2 = "s\<lparr>dependencies := (dependencies s)[p := []],
                queuedPrefetches := dependencies s ! p,
                curFetchPriority := int p,
                sent := sent s @ [Message_Info, Message_Info]\<rparr>"
  obtain ms where "sent (fetchQueued ?s2) = sent ?s2 @ ms"
      "dispatchedUrls ms = filter (\<lambda>x. \<not> set_has (requestedURLs ?s2) x) (fetchedUrls ms)"
      "lateUrls ms = filter (\<lambda>x. set_has (requestedURLs ?s2) x) (fetchedUrls ms)"
      "outstandingPrefetchUrls (fetchQueued ?s2)
          = foldl set_add (outstandingPrefetchUrls ?s2) (dispatchedUrls ms)"
      "requestedURLs (fetchQueued ?s2) = requestedURLs ?s2"
    using fetchQueued_outcome [of ?s2] by blast
  then show ?thesis
    using batch(6) by (intro exI [of _ "[Message_Info, Message_Info] @ ms"]) simp
next
  case nobatch
  let ?s2 = "s\<lparr>sent := sent s @ [Message_Info, Message_Info]\<rparr>"
  obtain ms where "sent (fetchQueued ?s2) = sent ?s2 @ ms"
      "dispatchedUrls ms = filter (\<lambda>x. \<not> set_has (requestedURLs ?s2) x) (fetchedUrls ms)"
      "lateUrls ms = filter (\<lambda>x. set_has (requestedURLs ?s2) x) (fetchedUrls ms)"
      "outstandingPrefetchUrls (fetchQueued ?s2)
          = foldl set_add (outstandingPrefetchUrls ?s2) (dispatchedUrls ms)"
      "requestedURLs (fetchQueued ?s2) = requestedURLs ?s2"
    using fetchQueued_outcome [of ?s2] by blast
  then show ?thesis
    using nobatch(3) by (intro exI [of _ "[Message_Info, Message_Info] @ ms"]) simp
qed

lemma handleFetchCompleted_outcome_drop:
  "dispatchedUrls (drop (length (sent s)) (sent (handleFetchCompleted s u)))
     = filter (\<lambda>x. \<not> set_has (requestedURLs s) x)
         (fetchedUrls (drop (length (sent s)) (sent (handleFetchCompleted s u))))
   \<and> lateUrls (drop (length (sent s)) (sent (handleFetchCompleted s u)))
     = filter (\<lambda>x. set_has (requestedURLs s) x)
         (fetchedUrls (drop (length (sent s)) (sent (handleFetchCompleted s u))))
   \<and> outstandingPrefetchUrls (handleFetchCompleted s u)
     = foldl set_add (outstandingPrefetchUrls s)
         (dispatchedUrls (drop (length (sent s)) (sent (handleFetchCompleted s u))))
   \<and> requestedURLs (handleFetchCompleted s u) = requestedURLs s"
proof -
  obtain ms where ms: "sent (handleFetchCompleted s u) = sent s @ ms"
      "dispatchedUrls ms = filter (\<lambda>x. \<not> set_has (requestedURLs s) x) (fetchedUrls ms)"
      "lateUrls ms = filter (\<lambda>x. set_has (requestedURLs s) x) (fetchedUrls ms)"
      "outstandingPrefetchUrls (handleFetchCompleted s u)
          = foldl set_add (outstandingPrefetchUrls s) (dispatchedUrls ms)"
      "requestedURLs (handleFetchCompleted s u) = requestedURLs s"
    using handleFetchCompleted_outcome [of s u] by blast
  have "drop (length (sent s)) (sent (handleFetchCompleted s u)) = ms"
    using ms(1) by simp
  with ms show ?thesis by simp
qed

text \<open>
  The messages of one event, when the event is a refill pass between a prefix and a
  suffix of messages that belong to no call of \<^verbatim>\<open>fetchDependency\<close>.
\<close>

lemma outcome_lift:
  assumes "sent s' = sent s @ pre @ ms @ post"
    and "fetchedUrls pre = []" "dispatchedUrls pre = []" "lateUrls pre = []"
    and "fetchedUrls post = []" "dispatchedUrls post = []" "lateUrls post = []"
    and "dispatchedUrls ms = filter (\<lambda>x. \<not> set_has req x) (fetchedUrls ms)"
    and "lateUrls ms = filter (\<lambda>x. set_has req x) (fetchedUrls ms)"
    and "set (dispatchedUrls ms) \<subseteq> set out"
  shows "dispatchedUrls (drop (length (sent s)) (sent s'))
           = filter (\<lambda>x. \<not> set_has req x) (fetchedUrls (drop (length (sent s)) (sent s')))
       \<and> lateUrls (drop (length (sent s)) (sent s'))
           = filter (\<lambda>x. set_has req x) (fetchedUrls (drop (length (sent s)) (sent s')))
       \<and> set (dispatchedUrls (drop (length (sent s)) (sent s'))) \<subseteq> set out"
proof -
  have "drop (length (sent s)) (sent s') = pre @ ms @ post"
    using assms(1) by simp
  then show ?thesis using assms(2-) by simp
qed

lemma onFetchCompleted_outcome:
  "\<exists>ms m. sent (onFetchCompleted s d) = sent s @ ms @ [Message_Debug, m]
      \<and> fetchedUrl m = None \<and> dispatchedUrl m = None \<and> lateUrl m = None
      \<and> dispatchedUrls ms = filter (\<lambda>x. \<not> set_has (requestedURLs s) x) (fetchedUrls ms)
      \<and> lateUrls ms = filter (\<lambda>x. set_has (requestedURLs s) x) (fetchedUrls ms)
      \<and> set (dispatchedUrls ms) \<subseteq> set (outstandingPrefetchUrls (onFetchCompleted s d))"
proof -
  define s1 where "s1 = s\<lparr>outstandingPrefetchUrls :=
                           set_delete (outstandingPrefetchUrls s) (details_url d)\<rparr>"
  define s2 where "s2 = handleFetchCompleted s1 (details_url d)"
  define s5 where "s5 = onFetchCompleted s d"
  obtain ms where ms: "sent s2 = sent s1 @ ms"
      "dispatchedUrls ms = filter (\<lambda>x. \<not> set_has (requestedURLs s1) x) (fetchedUrls ms)"
      "lateUrls ms = filter (\<lambda>x. set_has (requestedURLs s1) x) (fetchedUrls ms)"
      "outstandingPrefetchUrls s2 = foldl set_add (outstandingPrefetchUrls s1) (dispatchedUrls ms)"
    unfolding s2_def using handleFetchCompleted_outcome [of s1 "details_url d"] by blast
  have o5: "outstandingPrefetchUrls s5 = outstandingPrefetchUrls s2"
    unfolding s5_def s2_def s1_def
    by (simp add: onFetchCompleted_def notifyContentScript_def Let_def case_prod_beta)
  have "\<exists>m. sent s5 = sent s2 @ [Message_Debug, m]
          \<and> fetchedUrl m = None \<and> dispatchedUrl m = None \<and> lateUrl m = None"
    unfolding s5_def s2_def s1_def
    by (simp add: onFetchCompleted_def notifyContentScript_def Let_def case_prod_beta
          isPrefetchRequest_not_late)
  then obtain m where m: "sent s5 = sent s2 @ [Message_Debug, m]"
    "fetchedUrl m = None" "dispatchedUrl m = None" "lateUrl m = None"
    by blast
  have s1: "sent s1 = sent s" "requestedURLs s1 = requestedURLs s"
    by (simp_all add: s1_def)
  have "set (dispatchedUrls ms) \<subseteq> set (outstandingPrefetchUrls s5)"
    using o5 ms(4) by (simp add: set_foldl_set_add)
  moreover have "sent s5 = sent s @ ms @ [Message_Debug, m]"
    using m(1) ms(1) s1(1) by simp
  ultimately show ?thesis
    unfolding s5_def [symmetric] using ms(2,3) [unfolded s1(2)] m(2-) by blast
qed

lemma handleEvent_outcome:
  "dispatchedBy s ev = filter (\<lambda>x. \<not> set_has (requestedURLs s) x) (fetchedBy s ev)
   \<and> lateBy s ev = filter (\<lambda>x. set_has (requestedURLs s) x) (fetchedBy s ev)
   \<and> set (dispatchedBy s ev) \<subseteq> set (outstandingPrefetchUrls (handleEvent s ev))"
proof (cases ev)
  case Run
  then show ?thesis
    by (simp add: dispatchedBy_def lateBy_def fetchedBy_def run_def notifyContentScript_def)
next
  case (SendHeaders d)
  then show ?thesis
    by (simp add: dispatchedBy_def lateBy_def fetchedBy_def onSendHeaders_def
          notifyContentScript_def Let_def)
next
  case (HeadersReceived d)
  then show ?thesis
    by (simp add: dispatchedBy_def lateBy_def fetchedBy_def fst_onHeadersReceived
          onHeadersReceived_forEach_fields notifyContentScript_def)
next
  case (FetchSucceed d)
  let ?s0 = "notifyContentScript s Message_Info"
  obtain ms m where "sent (onFetchCompleted ?s0 d) = sent ?s0 @ ms @ [Message_Debug, m]"
    "fetchedUrl m = None" "dispatchedUrl m = None" "lateUrl m = None"
    "dispatchedUrls ms = filter (\<lambda>x. \<not> set_has (requestedURLs ?s0) x) (fetchedUrls ms)"
    "lateUrls ms = filter (\<lambda>x. set_has (requestedURLs ?s0) x) (fetchedUrls ms)"
    "set (dispatchedUrls ms) \<subseteq> set (outstandingPrefetchUrls (onFetchCompleted ?s0 d))"
    using onFetchCompleted_outcome [of ?s0 d] by blast
  then have "dispatchedUrls (drop (length (sent s)) (sent (onFetchCompleted ?s0 d)))
           = filter (\<lambda>x. \<not> set_has (requestedURLs s) x)
               (fetchedUrls (drop (length (sent s)) (sent (onFetchCompleted ?s0 d))))
       \<and> lateUrls (drop (length (sent s)) (sent (onFetchCompleted ?s0 d)))
           = filter (\<lambda>x. set_has (requestedURLs s) x)
               (fetchedUrls (drop (length (sent s)) (sent (onFetchCompleted ?s0 d))))
       \<and> set (dispatchedUrls (drop (length (sent s)) (sent (onFetchCompleted ?s0 d))))
           \<subseteq> set (outstandingPrefetchUrls (onFetchCompleted ?s0 d))"
    by (intro outcome_lift [where pre = "[Message_Info]" and ms = ms
          and post = "[Message_Debug, m]"])
       (simp_all add: notifyContentScript_def)
  moreover have "handleEvent s ev = onFetchCompleted ?s0 d"
    using FetchSucceed by (simp add: onFetchSucceed_def)
  ultimately show ?thesis
    unfolding dispatchedBy_def lateBy_def fetchedBy_def by metis
next
  case (ErrorOccurred d)
  let ?s0 = "notifyContentScript s Message_Info"
  obtain ms m where "sent (onFetchCompleted ?s0 d) = sent ?s0 @ ms @ [Message_Debug, m]"
    "fetchedUrl m = None" "dispatchedUrl m = None" "lateUrl m = None"
    "dispatchedUrls ms = filter (\<lambda>x. \<not> set_has (requestedURLs ?s0) x) (fetchedUrls ms)"
    "lateUrls ms = filter (\<lambda>x. set_has (requestedURLs ?s0) x) (fetchedUrls ms)"
    "set (dispatchedUrls ms) \<subseteq> set (outstandingPrefetchUrls (onFetchCompleted ?s0 d))"
    using onFetchCompleted_outcome [of ?s0 d] by blast
  then have "dispatchedUrls (drop (length (sent s)) (sent (onFetchCompleted ?s0 d)))
           = filter (\<lambda>x. \<not> set_has (requestedURLs s) x)
               (fetchedUrls (drop (length (sent s)) (sent (onFetchCompleted ?s0 d))))
       \<and> lateUrls (drop (length (sent s)) (sent (onFetchCompleted ?s0 d)))
           = filter (\<lambda>x. set_has (requestedURLs s) x)
               (fetchedUrls (drop (length (sent s)) (sent (onFetchCompleted ?s0 d))))
       \<and> set (dispatchedUrls (drop (length (sent s)) (sent (onFetchCompleted ?s0 d))))
           \<subseteq> set (outstandingPrefetchUrls (onFetchCompleted ?s0 d))"
    by (intro outcome_lift [where pre = "[Message_Info]" and ms = ms
          and post = "[Message_Debug, m]"])
       (simp_all add: notifyContentScript_def)
  moreover have "handleEvent s ev = onFetchCompleted ?s0 d"
    using ErrorOccurred by (simp add: onErrorOccurred_def)
  ultimately show ?thesis
    unfolding dispatchedBy_def lateBy_def fetchedBy_def by metis
next
  case (ContentMessage m)
  show ?thesis
  proof (cases "m = CONTENT_SCRIPT_INIT \<and> \<not> initializedContentScript s")
    case True
    let ?s1 = "handleFetchCompleted s ''INIT''"
    let ?s2 = "?s1\<lparr>initializedContentScript := True\<rparr>"
    obtain ms where "sent ?s1 = sent s @ ms"
      "dispatchedUrls ms = filter (\<lambda>x. \<not> set_has (requestedURLs s) x) (fetchedUrls ms)"
      "lateUrls ms = filter (\<lambda>x. set_has (requestedURLs s) x) (fetchedUrls ms)"
      "outstandingPrefetchUrls ?s1 = foldl set_add (outstandingPrefetchUrls s) (dispatchedUrls ms)"
      using handleFetchCompleted_outcome [of s "''INIT''"] by blast
    then have "dispatchedUrls (drop (length (sent s)) (sent ?s2))
           = filter (\<lambda>x. \<not> set_has (requestedURLs s) x)
               (fetchedUrls (drop (length (sent s)) (sent ?s2)))
       \<and> lateUrls (drop (length (sent s)) (sent ?s2))
           = filter (\<lambda>x. set_has (requestedURLs s) x)
               (fetchedUrls (drop (length (sent s)) (sent ?s2)))
       \<and> set (dispatchedUrls (drop (length (sent s)) (sent ?s2)))
           \<subseteq> set (outstandingPrefetchUrls ?s2)"
      by (intro outcome_lift [where pre = "[]" and ms = ms and post = "[]"])
         (simp_all add: set_foldl_set_add)
    moreover have "handleEvent s ev = ?s2"
      using ContentMessage True by (simp add: onContentMessage_def)
    ultimately show ?thesis
      unfolding dispatchedBy_def lateBy_def fetchedBy_def by metis
  next
    case False
    with ContentMessage have "handleEvent s ev = s"
      by (cases m) (auto simp: onContentMessage_def)
    with ContentMessage show ?thesis
      by (simp add: dispatchedBy_def lateBy_def fetchedBy_def)
  qed
qed


section \<open>The claims about the scheduler\<close>

text \<open>
  C1. In every state that the scheduler reaches from its construction by any sequence of
  events (start, headers sent, headers received with their hints, completion, error,
  message from the content script), the outstanding set holds at most
  \<open>OUTSTANDING_REQUESTS_ALLOWED = 7\<close> URLs; and the refill pass, the only caller of
  \<^verbatim>\<open>fetchDependency\<close>, changes the set only when it is entered with fewer than 7.
\<close>

theorem outstanding_bounded:
  "set_size (outstandingPrefetchUrls (handleEvents events)) \<le> 7
   \<and> (outstandingPrefetchUrls (handleFetchCompleted s fetchedURL) \<noteq> outstandingPrefetchUrls s
        \<longrightarrow> set_size (outstandingPrefetchUrls s) < 7)"
proof
  have "set_size (outstandingPrefetchUrls constructor) \<le> OUTSTANDING_REQUESTS_ALLOWED"
    by (simp add: constructor_def set_size_def)
  then show "set_size (outstandingPrefetchUrls (handleEvents events)) \<le> 7"
    unfolding handleEvents_def
    using foldl_handleEvent_size [of constructor events]
    by (simp add: OUTSTANDING_REQUESTS_ALLOWED_def)
  show "outstandingPrefetchUrls (handleFetchCompleted s fetchedURL) \<noteq> outstandingPrefetchUrls s
        \<longrightarrow> set_size (outstandingPrefetchUrls s) < 7"
    using handleFetchCompleted_adds_below_capacity [of s fetchedURL]
    by (simp add: OUTSTANDING_REQUESTS_ALLOWED_def)
qed

theorem outstanding_bounded_witness:
  "set_size (outstandingPrefetchUrls
      (handleEvents [Run, HeadersReceived (hintDetails eightUrlsHint),
                     ContentMessage CONTENT_SCRIPT_INIT])) \<le> 7
   \<and> outstandingPrefetchUrls
        (handleFetchCompleted
           (handleEvents [Run, HeadersReceived (hintDetails eightUrlsHint)]) ''INIT'')
       \<noteq> outstandingPrefetchUrls (handleEvents [Run, HeadersReceived (hintDetails eightUrlsHint)])
   \<and> set_size (outstandingPrefetchUrls
        (handleEvents [Run, HeadersReceived (hintDetails eightUrlsHint)])) < 7"
proof -
  have changed: "outstandingPrefetchUrls
        (handleFetchCompleted
           (handleEvents [Run, HeadersReceived (hintDetails eightUrlsHint)]) ''INIT'')
       \<noteq> outstandingPrefetchUrls (handleEvents [Run, HeadersReceived (hintDetails eightUrlsHint)])"
    by code_simp
  from outstanding_bounded
         [of "[Run, HeadersReceived (hintDetails eightUrlsHint), ContentMessage CONTENT_SCRIPT_INIT]"
             "handleEvents [Run, HeadersReceived (hintDetails eightUrlsHint)]" "''INIT''"]
       changed
  show ?thesis by blast
qed

text \<open>
  C3. The parser does not clamp a negative priority: \<^verbatim>\<open>Math.min(priority, 99)\<close> bounds
  the index from above only. On the well-formed entry \<^verbatim>\<open><a>; priority=-5; type=script\<close>
  the index is \<open>-5\<close>, \<^verbatim>\<open>dependencies[-5]\<close> is \<^verbatim>\<open>undefined\<close> and the \<^verbatim>\<open>push\<close>
  throws a \<^verbatim>\<open>TypeError\<close>: no bucket between 0 and 99 receives the resource. A
  priority above 99 is clamped: \<^verbatim>\<open>priority=150\<close> lands in bucket 99.
\<close>

theorem parsePrefetchURLs_negative_priority:
  "parsePrefetchURLs (dependencies constructor) ''<a>; priority=-5; type=script''
     = (dependencies constructor, Some TypeError)
   \<and> parsePrefetchURLs (dependencies constructor) ''<a>; priority=150; type=script''
     = ((dependencies constructor)[99 := [\<lparr>url = ''a'', type = ''script''\<rparr>]], None)"
  by code_simp

text \<open>
  C4, as the claim states it, fails. In the run \<open>lateRun\<close> tiers 0 and 5 are both
  non-empty after the hints, and the completion of \<open>b\<close> drains tier 5; but of the
  resources \<open>a\<close> and \<open>b\<close> parsed into tier 0 only \<open>b\<close> was dispatched and added to the
  outstanding set: the browser had requested \<open>a\<close> itself, so \<^verbatim>\<open>fetchDependency\<close>
  suppressed it as a late prefetch. The outstanding set is empty before the content
  script reports in, \<open>[b]\<close> from then until the completion of \<open>b\<close>, and \<open>[c]\<close> after it;
  the messages sent show no directive for \<open>a\<close>.
\<close>

theorem wave_order_dispatch_counterexample:
  "(0 :: nat) < 5 \<and> 5 < NUM_PRIORITIES
   \<and> dependencies (handleEvents lateRun) ! 5 \<noteq> []
   \<and> dependencies (handleEvent (handleEvents lateRun) lateEvent) ! 5 = []
   \<and> map url (parsedIntoTier 0 constructor lateRun) = [''a'', ''b'']
   \<and> dispatchedOfTier 0 constructor lateRun = [''b'']
   \<and> dispatchedOfTier 0 constructor lateRun \<noteq> map url (parsedIntoTier 0 constructor lateRun)
   \<and> outstandingPrefetchUrls (handleEvents (take 1 lateRun)) = []
   \<and> outstandingPrefetchUrls (handleEvents (take 2 lateRun)) = []
   \<and> outstandingPrefetchUrls (handleEvents (take 3 lateRun)) = []
   \<and> requestedURLs (handleEvents (take 3 lateRun)) = [''a'']
   \<and> outstandingPrefetchUrls (handleEvents (take 4 lateRun)) = [''b'']
   \<and> outstandingPrefetchUrls (handleEvents lateRun) = [''b'']
   \<and> outstandingPrefetchUrls (handleEvent (handleEvents lateRun) lateEvent) = [''c'']
   \<and> sent (handleEvent (handleEvents lateRun) lateEvent)
       = [Message_Info, Message_Info, Message_Info, Message_Info,
          Message_Log ''a'' [] (- 1) (- 1) (- 1) ''late'',
          Message_Prefetch PREFETCH_RESOURCE ''b'' ''style'',
          Message_Info, Message_Info, Message_Info,
          Message_Prefetch PREFETCH_RESOURCE ''c'' ''image'',
          Message_Debug,
          Message_Log ''b'' ''3'' 3 6 9 ''no'']"
  by code_simp

text \<open>
  C4, amended. Wave ordering across tiers: when an event drains a tier \<open>p2\<close>, every
  resource that the hints so far put in a tier \<open>p1 < p2\<close> has already been passed to
  \<^verbatim>\<open>fetchDependency\<close>, which dispatched it and added it to the outstanding set, or
  suppressed it as a late prefetch because its URL was in the requested set. The
  batch-formation step of the refill pass runs only when the outstanding set is empty, the
  queue is empty and some tier is non-empty; it empties the lowest-indexed non-empty tier
  \<open>p\<close>, sets \<^verbatim>\<open>curFetchPriority_\<close> to \<open>p\<close>, and every resource of the tier is then
  either passed to \<^verbatim>\<open>fetchDependency\<close> in this pass or left in the queue, in the order
  of the tier.

  The theorem has four parts. The first is the ordering, for every sequence of events and
  the event \<open>ev\<close> that follows it. The second is the batch-formation step, for every
  state \<open>s\<close>. The third and the fourth say what passing a resource to
  \<^verbatim>\<open>fetchDependency\<close> does, for every refill pass and for every event \<open>e\<close> handled in
  any state \<open>t\<close>: of the URLs passed, those that are not in the requested set are the
  ones a directive is sent for, and they are in the outstanding set afterwards (after a
  refill pass the outstanding set is the set before it with exactly these URLs added);
  those that are in the requested set are the ones logged as late, and nothing is added
  for them; the requested set is the same after the pass.
\<close>

theorem wave_order:
  "(p1 < p2 \<and> p2 < NUM_PRIORITIES
      \<and> dependencies (handleEvents events) ! p2 \<noteq> []
      \<and> dependencies (handleEvent (handleEvents events) ev) ! p2 = []
    \<longrightarrow> fetchedOfTier p1 constructor events = map url (parsedIntoTier p1 constructor events))
   \<and> (dependencies (handleFetchCompleted s fetchedURL) \<noteq> dependencies s
    \<longrightarrow> outstandingPrefetchUrls s = [] \<and> queuedPrefetches s = []
        \<and> (\<exists>p. p < length (dependencies s) \<and> dependencies s ! p \<noteq> []
              \<and> (\<forall>i<p. dependencies s ! i = [])
              \<and> dependencies (handleFetchCompleted s fetchedURL) = (dependencies s)[p := []]
              \<and> curFetchPriority (handleFetchCompleted s fetchedURL) = int p
              \<and> (\<exists>ms. sent (handleFetchCompleted s fetchedURL) = sent s @ ms
                    \<and> fetchedUrls ms
                        @ map url (queuedPrefetches (handleFetchCompleted s fetchedURL))
                      = map url (dependencies s ! p))))
   \<and> (dispatchedUrls (drop (length (sent s)) (sent (handleFetchCompleted s fetchedURL)))
        = filter (\<lambda>x. \<not> set_has (requestedURLs s) x)
            (fetchedUrls (drop (length (sent s)) (sent (handleFetchCompleted s fetchedURL))))
      \<and> lateUrls (drop (length (sent s)) (sent (handleFetchCompleted s fetchedURL)))
        = filter (\<lambda>x. set_has (requestedURLs s) x)
            (fetchedUrls (drop (length (sent s)) (sent (handleFetchCompleted s fetchedURL))))
      \<and> outstandingPrefetchUrls (handleFetchCompleted s fetchedURL)
        = foldl set_add (outstandingPrefetchUrls s)
            (dispatchedUrls (drop (length (sent s)) (sent (handleFetchCompleted s fetchedURL))))
      \<and> requestedURLs (handleFetchCompleted s fetchedURL) = requestedURLs s)
   \<and> (dispatchedBy t e = filter (\<lambda>x. \<not> set_has (requestedURLs t) x) (fetchedBy t e)
      \<and> lateBy t e = filter (\<lambda>x. set_has (requestedURLs t) x) (fetchedBy t e)
      \<and> set (dispatchedBy t e) \<subseteq> set (outstandingPrefetchUrls (handleEvent t e)))"
proof (intro conjI [where P = "_ \<longrightarrow> _"] impI)
  assume a: "p1 < p2 \<and> p2 < NUM_PRIORITIES
      \<and> dependencies (handleEvents events) ! p2 \<noteq> []
      \<and> dependencies (handleEvent (handleEvents events) ev) ! p2 = []"
  then have "waiting (handleEvents events) p1 = []"
    by (intro handleEvent_drains [of _ p2 ev]) simp_all
  moreover have "waiting constructor p1 = []"
    using a by (simp add: waiting_def constructor_def)
  ultimately show "fetchedOfTier p1 constructor events
      = map url (parsedIntoTier p1 constructor events)"
    using foldl_handleEvent_waiting [of p1 constructor events]
    by (simp add: handleEvents_def)
next
  assume ch: "dependencies (handleFetchCompleted s fetchedURL) \<noteq> dependencies s"
  show "outstandingPrefetchUrls s = [] \<and> queuedPrefetches s = []
        \<and> (\<exists>p. p < length (dependencies s) \<and> dependencies s ! p \<noteq> []
              \<and> (\<forall>i<p. dependencies s ! i = [])
              \<and> dependencies (handleFetchCompleted s fetchedURL) = (dependencies s)[p := []]
              \<and> curFetchPriority (handleFetchCompleted s fetchedURL) = int p
              \<and> (\<exists>ms. sent (handleFetchCompleted s fetchedURL) = sent s @ ms
                    \<and> fetchedUrls ms
                        @ map url (queuedPrefetches (handleFetchCompleted s fetchedURL))
                      = map url (dependencies s ! p)))"
  proof (cases rule: handleFetchCompleted_cases [of s fetchedURL])
    case full
    with ch show ?thesis by simp
  next
    case nobatch
    with ch show ?thesis by (simp add: fetchQueued_dependencies)
  next
    case (batch p)
    let ?s2 = "s\<lparr>dependencies := (dependencies s)[p := []],
                  queuedPrefetches := dependencies s ! p,
                  curFetchPriority := int p,
                  sent := sent s @ [Message_Info, Message_Info]\<rparr>"
    obtain k ms where k: "queuedPrefetches (fetchQueued ?s2) = drop k (queuedPrefetches ?s2)"
      "sent (fetchQueued ?s2) = sent ?s2 @ ms"
      "fetchedUrls ms = map url (take k (queuedPrefetches ?s2))"
      "dependencies (fetchQueued ?s2) = dependencies ?s2"
      "curFetchPriority (fetchQueued ?s2) = curFetchPriority ?s2"
      using fetchQueued_char [of ?s2] by blast
    have tk: "map url (take k (dependencies s ! p)) @ map url (drop k (dependencies s ! p))
          = map url (dependencies s ! p)"
      by (simp flip: map_append)
    have "sent (handleFetchCompleted s fetchedURL) = sent s @ ([Message_Info, Message_Info] @ ms)
        \<and> fetchedUrls ([Message_Info, Message_Info] @ ms)
            @ map url (queuedPrefetches (handleFetchCompleted s fetchedURL))
          = map url (dependencies s ! p)"
      using batch(6) k tk by simp
    then have "\<exists>ms. sent (handleFetchCompleted s fetchedURL) = sent s @ ms
        \<and> fetchedUrls ms @ map url (queuedPrefetches (handleFetchCompleted s fetchedURL))
          = map url (dependencies s ! p)"
      by blast
    moreover have "dependencies (handleFetchCompleted s fetchedURL) = (dependencies s)[p := []]"
      "curFetchPriority (handleFetchCompleted s fetchedURL) = int p"
      using batch(6) k by simp_all
    ultimately show ?thesis using batch(1-5) by blast
  qed
next
  show "(dispatchedUrls (drop (length (sent s)) (sent (handleFetchCompleted s fetchedURL)))
        = filter (\<lambda>x. \<not> set_has (requestedURLs s) x)
            (fetchedUrls (drop (length (sent s)) (sent (handleFetchCompleted s fetchedURL))))
      \<and> lateUrls (drop (length (sent s)) (sent (handleFetchCompleted s fetchedURL)))
        = filter (\<lambda>x. set_has (requestedURLs s) x)
            (fetchedUrls (drop (length (sent s)) (sent (handleFetchCompleted s fetchedURL))))
      \<and> outstandingPrefetchUrls (handleFetchCompleted s fetchedURL)
        = foldl set_add (outstandingPrefetchUrls s)
            (dispatchedUrls (drop (length (sent s)) (sent (handleFetchCompleted s fetchedURL))))
      \<and> requestedURLs (handleFetchCompleted s fetchedURL) = requestedURLs s)
   \<and> (dispatchedBy t e = filter (\<lambda>x. \<not> set_has (requestedURLs t) x) (fetchedBy t e)
      \<and> lateBy t e = filter (\<lambda>x. set_has (requestedURLs t) x) (fetchedBy t e)
      \<and> set (dispatchedBy t e) \<subseteq> set (outstandingPrefetchUrls (handleEvent t e)))"
    using handleFetchCompleted_outcome_drop [of s fetchedURL] handleEvent_outcome [of t e]
    by blast
qed

theorem wave_order_witness:
  "(0 :: nat) < 5 \<and> 5 < NUM_PRIORITIES
   \<and> dependencies (handleEvents lateRun) ! 5 \<noteq> []
   \<and> dependencies (handleEvent (handleEvents lateRun) lateEvent) ! 5 = []
   \<and> fetchedOfTier 0 constructor lateRun = map url (parsedIntoTier 0 constructor lateRun)
   \<and> dependencies (handleFetchCompleted (handleEvents (take 3 lateRun)) ''INIT'')
       \<noteq> dependencies (handleEvents (take 3 lateRun))
   \<and> outstandingPrefetchUrls (handleEvents (take 3 lateRun)) = []
   \<and> queuedPrefetches (handleEvents (take 3 lateRun)) = []
   \<and> requestedURLs (handleEvents (take 3 lateRun)) = [''a'']
   \<and> fetchedBy (handleEvents (take 3 lateRun)) (ContentMessage CONTENT_SCRIPT_INIT)
       = [''a'', ''b'']
   \<and> dispatchedBy (handleEvents (take 3 lateRun)) (ContentMessage CONTENT_SCRIPT_INIT) = [''b'']
   \<and> lateBy (handleEvents (take 3 lateRun)) (ContentMessage CONTENT_SCRIPT_INIT) = [''a'']
   \<and> outstandingPrefetchUrls
        (handleEvent (handleEvents (take 3 lateRun)) (ContentMessage CONTENT_SCRIPT_INIT))
       = [''b'']
   \<and> outstandingPrefetchUrls (handleFetchCompleted (handleEvents (take 3 lateRun)) ''INIT'')
       = foldl set_add (outstandingPrefetchUrls (handleEvents (take 3 lateRun)))
           (dispatchedUrls (drop (length (sent (handleEvents (take 3 lateRun))))
              (sent (handleFetchCompleted (handleEvents (take 3 lateRun)) ''INIT''))))"
proof -
  have h1: "(0 :: nat) < 5 \<and> 5 < NUM_PRIORITIES
      \<and> dependencies (handleEvents lateRun) ! 5 \<noteq> []
      \<and> dependencies (handleEvent (handleEvents lateRun) lateEvent) ! 5 = []"
    by code_simp
  have h2: "dependencies (handleFetchCompleted (handleEvents (take 3 lateRun)) ''INIT'')
       \<noteq> dependencies (handleEvents (take 3 lateRun))"
    by code_simp
  have c: "requestedURLs (handleEvents (take 3 lateRun)) = [''a'']"
    "fetchedBy (handleEvents (take 3 lateRun)) (ContentMessage CONTENT_SCRIPT_INIT)
       = [''a'', ''b'']"
    "dispatchedBy (handleEvents (take 3 lateRun)) (ContentMessage CONTENT_SCRIPT_INIT) = [''b'']"
    "lateBy (handleEvents (take 3 lateRun)) (ContentMessage CONTENT_SCRIPT_INIT) = [''a'']"
    "outstandingPrefetchUrls
        (handleEvent (handleEvents (take 3 lateRun)) (ContentMessage CONTENT_SCRIPT_INIT))
       = [''b'']"
    by code_simp+
  from wave_order [where ?p1.0 = 0 and ?p2.0 = 5 and events = lateRun and ev = lateEvent
      and s = "handleEvents (take 3 lateRun)" and fetchedURL = "''INIT''"
      and t = "handleEvents (take 3 lateRun)" and e = "ContentMessage CONTENT_SCRIPT_INIT"]
    h1 h2 c
  show ?thesis by blast
qed

text \<open>
  C5. FIFO within a tier: for every sequence of events and every tier \<open>p\<close>, the URLs
  that the scheduler has passed to \<^verbatim>\<open>fetchDependency\<close> at tier \<open>p\<close>, in the order of
  the calls, followed by the URLs of the resources of tier \<open>p\<close> still waiting (the queue,
  then the bucket), are the URLs of the resources that the hints put in tier \<open>p\<close>, in the
  order in which they were parsed. So resources of one tier are dispatched in the order
  of their hints. The three steps behind it: the parser appends each resource at the end
  of one bucket; batch formation appends the bucket, front to back, to the queue; the
  fetch loop takes a front segment of the queue, in order, and leaves the rest.
\<close>

theorem fifo_within_tier:
  "(p < NUM_PRIORITIES \<longrightarrow>
      fetchedOfTier p constructor events @ map url (waiting (handleEvents events) p)
      = map url (parsedIntoTier p constructor events))
   \<and> (parsePrefetchURLs_element deps element = Inr deps' \<longrightarrow>
        (\<exists>k r. k < length deps \<and> deps' = deps[k := deps ! k @ [r]]))
   \<and> drain bucket queued = ([], queued @ bucket)
   \<and> (\<exists>k ms. k \<le> length (queuedPrefetches s)
          \<and> queuedPrefetches (fetchQueued s) = drop k (queuedPrefetches s)
          \<and> sent (fetchQueued s) = sent s @ ms
          \<and> fetchedUrls ms = map url (take k (queuedPrefetches s)))"
proof (intro conjI impI)
  assume "p < NUM_PRIORITIES"
  then show "fetchedOfTier p constructor events @ map url (waiting (handleEvents events) p)
      = map url (parsedIntoTier p constructor events)"
    using foldl_handleEvent_waiting [of p constructor events]
    by (simp add: handleEvents_def waiting_def constructor_def)
next
  assume "parsePrefetchURLs_element deps element = Inr deps'"
  then show "\<exists>k r. k < length deps \<and> deps' = deps[k := deps ! k @ [r]]"
    by (rule parsePrefetchURLs_element_appends)
next
  show "drain bucket queued = ([], queued @ bucket)"
    by (rule drain_eq)
next
  show "\<exists>k ms. k \<le> length (queuedPrefetches s)
          \<and> queuedPrefetches (fetchQueued s) = drop k (queuedPrefetches s)
          \<and> sent (fetchQueued s) = sent s @ ms
          \<and> fetchedUrls ms = map url (take k (queuedPrefetches s))"
    using fetchQueued_char [of s] by blast
qed

theorem fifo_within_tier_witness:
  "(0 :: nat) < NUM_PRIORITIES
   \<and> fetchedOfTier 0 constructor
        [Run, HeadersReceived (hintDetails eightUrlsHint), ContentMessage CONTENT_SCRIPT_INIT]
       = [''r1'', ''r2'', ''r3'', ''r4'', ''r5'', ''r6'', ''r7'']
   \<and> map url (waiting (handleEvents
        [Run, HeadersReceived (hintDetails eightUrlsHint), ContentMessage CONTENT_SCRIPT_INIT]) 0)
       = [''r8'']
   \<and> map url (parsedIntoTier 0 constructor
        [Run, HeadersReceived (hintDetails eightUrlsHint), ContentMessage CONTENT_SCRIPT_INIT])
       = [''r1'', ''r2'', ''r3'', ''r4'', ''r5'', ''r6'', ''r7'', ''r8'']
   \<and> fetchedOfTier 0 constructor
        [Run, HeadersReceived (hintDetails eightUrlsHint), ContentMessage CONTENT_SCRIPT_INIT]
       @ map url (waiting (handleEvents
        [Run, HeadersReceived (hintDetails eightUrlsHint), ContentMessage CONTENT_SCRIPT_INIT]) 0)
       = map url (parsedIntoTier 0 constructor
        [Run, HeadersReceived (hintDetails eightUrlsHint), ContentMessage CONTENT_SCRIPT_INIT])
   \<and> parsePrefetchURLs_element [[], [\<lparr>url = ''a'', type = ''script''\<rparr>]] ''<b>; priority=1; type=style''
       = Inr [[], [\<lparr>url = ''a'', type = ''script''\<rparr>, \<lparr>url = ''b'', type = ''style''\<rparr>]]
   \<and> (\<exists>k r. k < length [[], [\<lparr>url = ''a'', type = ''script''\<rparr>]]
          \<and> [[], [\<lparr>url = ''a'', type = ''script''\<rparr>, \<lparr>url = ''b'', type = ''style''\<rparr>]]
            = [[], [\<lparr>url = ''a'', type = ''script''\<rparr>]]
                [k := [[], [\<lparr>url = ''a'', type = ''script''\<rparr>]] ! k @ [r]])"
proof -
  have h: "(0 :: nat) < NUM_PRIORITIES" by (simp add: NUM_PRIORITIES_def)
  have f: "fetchedOfTier 0 constructor
        [Run, HeadersReceived (hintDetails eightUrlsHint), ContentMessage CONTENT_SCRIPT_INIT]
       = [''r1'', ''r2'', ''r3'', ''r4'', ''r5'', ''r6'', ''r7'']"
    by code_simp
  have w: "map url (waiting (handleEvents
        [Run, HeadersReceived (hintDetails eightUrlsHint), ContentMessage CONTENT_SCRIPT_INIT]) 0)
       = [''r8'']"
    by code_simp
  have e: "parsePrefetchURLs_element [[], [\<lparr>url = ''a'', type = ''script''\<rparr>]] ''<b>; priority=1; type=style''
       = Inr [[], [\<lparr>url = ''a'', type = ''script''\<rparr>, \<lparr>url = ''b'', type = ''style''\<rparr>]]"
    by code_simp
  note t = fifo_within_tier
      [where p = 0 and deps = "[[], [\<lparr>url = ''a'', type = ''script''\<rparr>]]"
         and element = "''<b>; priority=1; type=style''"
         and deps' = "[[], [\<lparr>url = ''a'', type = ''script''\<rparr>, \<lparr>url = ''b'', type = ''style''\<rparr>]]"
         and events = "[Run, HeadersReceived (hintDetails eightUrlsHint),
                        ContentMessage CONTENT_SCRIPT_INIT]"]
  from t h have c: "fetchedOfTier 0 constructor
        [Run, HeadersReceived (hintDetails eightUrlsHint), ContentMessage CONTENT_SCRIPT_INIT]
       @ map url (waiting (handleEvents
        [Run, HeadersReceived (hintDetails eightUrlsHint), ContentMessage CONTENT_SCRIPT_INIT]) 0)
       = map url (parsedIntoTier 0 constructor
        [Run, HeadersReceived (hintDetails eightUrlsHint), ContentMessage CONTENT_SCRIPT_INIT])"
    by blast
  from t e have x: "\<exists>k r. k < length [[], [\<lparr>url = ''a'', type = ''script''\<rparr>]]
          \<and> [[], [\<lparr>url = ''a'', type = ''script''\<rparr>, \<lparr>url = ''b'', type = ''style''\<rparr>]]
            = [[], [\<lparr>url = ''a'', type = ''script''\<rparr>]]
                [k := [[], [\<lparr>url = ''a'', type = ''script''\<rparr>]] ! k @ [r]]"
    by blast
  have "map url (parsedIntoTier 0 constructor
        [Run, HeadersReceived (hintDetails eightUrlsHint), ContentMessage CONTENT_SCRIPT_INIT])
       = [''r1'', ''r2'', ''r3'', ''r4'', ''r5'', ''r6'', ''r7'', ''r8'']"
    by code_simp
  with h f w e x c show ?thesis by blast
qed

text \<open>
  C6. When \<^verbatim>\<open>fetchDependency\<close> is called for a resource whose URL is not in the
  requested set, the one message it sends is a directive for the resource, of kind
  \<^verbatim>\<open>PRELOAD_RESOURCE\<close> exactly when the browser has navigated to the landing page and the
  priority is at most \<open>MAX_MAIN_FRAME_PRIORITY = 2\<close>, and of kind \<^verbatim>\<open>PREFETCH_RESOURCE\<close>
  in every other case.
\<close>

theorem fetchDependency_directive_kind:
  "\<not> set_has (requestedURLs s) (url resource) \<Longrightarrow>
   sent (fetchDependency s resource priority) =
     sent s @ [Message_Prefetch
                 (if navigatedToDst s \<and> priority \<le> 2 then PRELOAD_RESOURCE else PREFETCH_RESOURCE)
                 (url resource) (type resource)]"
  by (simp add: fetchDependency_def notifyContentScript_def MAX_MAIN_FRAME_PRIORITY_def)

theorem fetchDependency_directive_kind_witness:
  "\<not> set_has (requestedURLs (constructor\<lparr>navigatedToDst := True\<rparr>))
        (url \<lparr>url = ''a'', type = ''script''\<rparr>)
   \<and> sent (fetchDependency (constructor\<lparr>navigatedToDst := True\<rparr>) \<lparr>url = ''a'', type = ''script''\<rparr> 2)
      = [Message_Prefetch PRELOAD_RESOURCE ''a'' ''script'']
   \<and> sent (fetchDependency (constructor\<lparr>navigatedToDst := True\<rparr>) \<lparr>url = ''a'', type = ''script''\<rparr> 3)
      = [Message_Prefetch PREFETCH_RESOURCE ''a'' ''script'']
   \<and> \<not> set_has (requestedURLs constructor) (url \<lparr>url = ''a'', type = ''script''\<rparr>)
   \<and> sent (fetchDependency constructor \<lparr>url = ''a'', type = ''script''\<rparr> 0)
      = [Message_Prefetch PREFETCH_RESOURCE ''a'' ''script'']"
  using fetchDependency_directive_kind
          [of "constructor\<lparr>navigatedToDst := True\<rparr>" "\<lparr>url = ''a'', type = ''script''\<rparr>" 2]
    fetchDependency_directive_kind
          [of "constructor\<lparr>navigatedToDst := True\<rparr>" "\<lparr>url = ''a'', type = ''script''\<rparr>" 3]
    fetchDependency_directive_kind [of "constructor" "\<lparr>url = ''a'', type = ''script''\<rparr>" 0]
  by (simp add: constructor_def set_has_def)

text \<open>
  C7. When \<^verbatim>\<open>fetchDependency\<close> is called for a resource whose URL is in the requested
  set, it sends one timing log for the URL with the empty request id, the timestamps and
  the fetch time \<open>-1\<close> and \<^verbatim>\<open>isPrefetch\<close> \<^verbatim>\<open>late\<close>, which the content script prints as
  \<^verbatim>\<open>LATE_PREFETCH\<close>; it sends no directive and changes nothing else, so the URL is not
  added to the outstanding set.
\<close>

theorem fetchDependency_late:
  "set_has (requestedURLs s) (url resource) \<Longrightarrow>
   fetchDependency s resource priority
     = s\<lparr>sent := sent s @ [Message_Log (url resource) '''' (- 1) (- 1) (- 1) ''late'']\<rparr>
   \<and> handleLogTiming_suffix ''late'' = '',LATE_PREFETCH''
   \<and> dispatchedUrls (drop (length (sent s)) (sent (fetchDependency s resource priority))) = []
   \<and> outstandingPrefetchUrls (fetchDependency s resource priority) = outstandingPrefetchUrls s"
  by (simp add: fetchDependency_def notifyContentScript_def handleLogTiming_suffix_def
        dispatchedUrls_def List.map_filter_def)

theorem fetchDependency_late_witness:
  "set_has (requestedURLs (handleEvents [Run, SendHeaders (requestDetails ''a'' ''2'' 5)]))
      (url \<lparr>url = ''a'', type = ''script''\<rparr>)
   \<and> sent (fetchDependency (handleEvents [Run, SendHeaders (requestDetails ''a'' ''2'' 5)])
        \<lparr>url = ''a'', type = ''script''\<rparr> 0)
       = [Message_Info, Message_Log ''a'' '''' (- 1) (- 1) (- 1) ''late'']
   \<and> outstandingPrefetchUrls (fetchDependency (handleEvents [Run, SendHeaders (requestDetails ''a'' ''2'' 5)])
        \<lparr>url = ''a'', type = ''script''\<rparr> 0) = []"
proof -
  have h: "set_has (requestedURLs (handleEvents [Run, SendHeaders (requestDetails ''a'' ''2'' 5)]))
      (url \<lparr>url = ''a'', type = ''script''\<rparr>)"
    by code_simp
  have s0: "sent (handleEvents [Run, SendHeaders (requestDetails ''a'' ''2'' 5)]) = [Message_Info]"
    "outstandingPrefetchUrls (handleEvents [Run, SendHeaders (requestDetails ''a'' ''2'' 5)]) = []"
    by code_simp+
  from fetchDependency_late [OF h, of 0] h s0 show ?thesis by simp
qed

text \<open>
  C8. When the refill pass \<^verbatim>\<open>handleFetchCompleted\<close> is entered with 7 or more URLs in
  the outstanding set, it returns after its first info message: the buckets, the queue,
  the outstanding set, \<^verbatim>\<open>curFetchPriority_\<close> and the requested set are unchanged.
\<close>

theorem handleFetchCompleted_at_capacity:
  "7 \<le> set_size (outstandingPrefetchUrls s) \<Longrightarrow>
   handleFetchCompleted s fetchedURL = s\<lparr>sent := sent s @ [Message_Info]\<rparr>
   \<and> dependencies (handleFetchCompleted s fetchedURL) = dependencies s
   \<and> queuedPrefetches (handleFetchCompleted s fetchedURL) = queuedPrefetches s
   \<and> outstandingPrefetchUrls (handleFetchCompleted s fetchedURL) = outstandingPrefetchUrls s
   \<and> curFetchPriority (handleFetchCompleted s fetchedURL) = curFetchPriority s
   \<and> requestedURLs (handleFetchCompleted s fetchedURL) = requestedURLs s"
  by (simp add: handleFetchCompleted_def notifyContentScript_def
        OUTSTANDING_REQUESTS_ALLOWED_def Let_def)

theorem handleFetchCompleted_at_capacity_witness:
  "7 \<le> set_size (outstandingPrefetchUrls
      (handleEvents [Run, HeadersReceived (hintDetails eightUrlsHint),
                     ContentMessage CONTENT_SCRIPT_INIT]))
   \<and> queuedPrefetches
      (handleEvents [Run, HeadersReceived (hintDetails eightUrlsHint),
                     ContentMessage CONTENT_SCRIPT_INIT]) = [\<lparr>url = ''r8'', type = ''script''\<rparr>]
   \<and> queuedPrefetches (handleFetchCompleted
      (handleEvents [Run, HeadersReceived (hintDetails eightUrlsHint),
                     ContentMessage CONTENT_SCRIPT_INIT]) ''x'') = [\<lparr>url = ''r8'', type = ''script''\<rparr>]
   \<and> outstandingPrefetchUrls (handleFetchCompleted
      (handleEvents [Run, HeadersReceived (hintDetails eightUrlsHint),
                     ContentMessage CONTENT_SCRIPT_INIT]) ''x'')
       = [''r1'', ''r2'', ''r3'', ''r4'', ''r5'', ''r6'', ''r7'']"
proof -
  have h: "7 \<le> set_size (outstandingPrefetchUrls
      (handleEvents [Run, HeadersReceived (hintDetails eightUrlsHint),
                     ContentMessage CONTENT_SCRIPT_INIT]))"
    by code_simp
  have q: "queuedPrefetches
      (handleEvents [Run, HeadersReceived (hintDetails eightUrlsHint),
                     ContentMessage CONTENT_SCRIPT_INIT]) = [\<lparr>url = ''r8'', type = ''script''\<rparr>]"
    "outstandingPrefetchUrls
      (handleEvents [Run, HeadersReceived (hintDetails eightUrlsHint),
                     ContentMessage CONTENT_SCRIPT_INIT])
       = [''r1'', ''r2'', ''r3'', ''r4'', ''r5'', ''r6'', ''r7'']"
    by code_simp+
  from handleFetchCompleted_at_capacity [OF h, of "''x''"] h q show ?thesis by simp
qed

text \<open>
  C10. The ceiling bounds the distinct URLs in flight, not the directives sent. When
  \<^verbatim>\<open>fetchDependency\<close> is called for a resource whose URL is already in the outstanding
  set and not in the requested set, it sends a directive for it and the size of the
  outstanding set does not change. A hint that puts the same URL eight times in tier 0
  shows it: the first refill pass sends eight directives, more than
  \<open>OUTSTANDING_REQUESTS_ALLOWED\<close>, empties the queue, and the outstanding set holds the
  one URL.
\<close>

theorem duplicate_urls_pass_the_ceiling:
  "(\<not> set_has (requestedURLs s) (url resource) \<and> set_has (outstandingPrefetchUrls s) (url resource)
     \<longrightarrow> dispatchedUrls (drop (length (sent s)) (sent (fetchDependency s resource priority)))
           = [url resource]
         \<and> set_size (outstandingPrefetchUrls (fetchDependency s resource priority))
           = set_size (outstandingPrefetchUrls s))
   \<and> dependencies (handleEvents [Run, HeadersReceived (hintDetails sameUrlHint)]) ! 0
       = replicate 8 \<lparr>url = ''u'', type = ''script''\<rparr>
   \<and> dispatchedBy (handleEvents [Run, HeadersReceived (hintDetails sameUrlHint)])
        (ContentMessage CONTENT_SCRIPT_INIT) = replicate 8 ''u''
   \<and> OUTSTANDING_REQUESTS_ALLOWED
       < length (dispatchedBy (handleEvents [Run, HeadersReceived (hintDetails sameUrlHint)])
                   (ContentMessage CONTENT_SCRIPT_INIT))
   \<and> queuedPrefetches (handleEvents [Run, HeadersReceived (hintDetails sameUrlHint),
                                     ContentMessage CONTENT_SCRIPT_INIT]) = []
   \<and> outstandingPrefetchUrls (handleEvents [Run, HeadersReceived (hintDetails sameUrlHint),
                                            ContentMessage CONTENT_SCRIPT_INIT]) = [''u'']"
proof (intro conjI impI)
  assume a: "\<not> set_has (requestedURLs s) (url resource)
             \<and> set_has (outstandingPrefetchUrls s) (url resource)"
  then show "dispatchedUrls (drop (length (sent s)) (sent (fetchDependency s resource priority)))
           = [url resource]"
    by (simp add: fetchDependency_def notifyContentScript_def Let_def dispatchedUrls_def
          List.map_filter_def)
  from a show "set_size (outstandingPrefetchUrls (fetchDependency s resource priority))
           = set_size (outstandingPrefetchUrls s)"
    by (simp add: fetchDependency_def notifyContentScript_def Let_def set_has_def set_add_def)
qed code_simp+

theorem duplicate_urls_pass_the_ceiling_witness:
  "\<not> set_has (requestedURLs ((constructor :: int NumericPriorityScheduler)\<lparr>outstandingPrefetchUrls := [''u'']\<rparr>))
        (url \<lparr>url = ''u'', type = ''script''\<rparr>)
   \<and> set_has (outstandingPrefetchUrls ((constructor :: int NumericPriorityScheduler)\<lparr>outstandingPrefetchUrls := [''u'']\<rparr>))
        (url \<lparr>url = ''u'', type = ''script''\<rparr>)
   \<and> dispatchedUrls (sent (fetchDependency ((constructor :: int NumericPriorityScheduler)\<lparr>outstandingPrefetchUrls := [''u'']\<rparr>)
        \<lparr>url = ''u'', type = ''script''\<rparr> 0)) = [''u'']
   \<and> set_size (outstandingPrefetchUrls (fetchDependency
        ((constructor :: int NumericPriorityScheduler)\<lparr>outstandingPrefetchUrls := [''u'']\<rparr>) \<lparr>url = ''u'', type = ''script''\<rparr> 0)) = 1"
  using duplicate_urls_pass_the_ceiling
          [of "(constructor :: int NumericPriorityScheduler)\<lparr>outstandingPrefetchUrls := [''u'']\<rparr>" "\<lparr>url = ''u'', type = ''script''\<rparr>" 0]
  by (simp add: constructor_def set_has_def set_size_def)

end
